theory Spec2Isabelle
  imports Main
begin

section \<open>Python strings\<close>

text \<open>
  A Python \<open>str\<close> is modelled as a \<open>string\<close> whose characters are the code points
  0 to 255. \<open>py_isspace\<close> is \<open>str.isspace\<close> on one character of that range; it is
  also what \<open>\s\<close> matches in a \<open>str\<close> pattern of the \<open>re\<close> module.
\<close>

definition nl :: char where
  "nl = CHR 0x0A"

definition sp :: char where
  "sp = CHR 0x20"

definition py_isspace :: "char \<Rightarrow> bool" where
  "py_isspace c \<longleftrightarrow>
     c \<in> set [CHR 0x09, CHR 0x0A, CHR 0x0B, CHR 0x0C, CHR 0x0D, CHR 0x1C, CHR 0x1D,
              CHR 0x1E, CHR 0x1F, CHR 0x20, CHR 0x85, CHR 0xA0]"

text \<open>\<open>s.strip()\<close>: leading and trailing whitespace removed.\<close>

definition py_strip :: "string \<Rightarrow> string" where
  "py_strip s = rev (dropWhile py_isspace (rev (dropWhile py_isspace s)))"

text \<open>\<open>sep.join(parts)\<close>.\<close>

fun py_join :: "string \<Rightarrow> string list \<Rightarrow> string" where
  "py_join sep [] = []"
| "py_join sep [x] = x"
| "py_join sep (x # y # ys) = x @ sep @ py_join sep (y # ys)"

text \<open>\<open>str(v)\<close> of an optional string, as an f-string interpolates it.\<close>

fun py_str :: "string option \<Rightarrow> string" where
  "py_str None = ''None''"
| "py_str (Some v) = v"

subsection \<open>The two substitutions of \<open>_save_section\<close>\<close>

text \<open>
  \<open>re.sub(pattern, repl, s)\<close> scans \<open>s\<close> from the left; where the pattern matches at
  the current position the replacement is emitted and the scan continues behind the
  match, otherwise the character is copied. The pattern is given by its matcher: the
  length of its match at the start of a string, \<open>None\<close> when it does not match there.
  Both patterns of the source match at least one character, so an empty match does not
  occur and is treated as no match.
\<close>

fun re_sub :: "(string \<Rightarrow> nat option) \<Rightarrow> string \<Rightarrow> string \<Rightarrow> string" where
  "re_sub m repl [] = []"
| "re_sub m repl (c # cs) =
     (case m (c # cs) of
        Some (Suc k) \<Rightarrow> repl @ re_sub m repl (drop k cs)
      | _ \<Rightarrow> c # re_sub m repl cs)"

text \<open>
  The pattern \<open>\n\s*\n+\<close>: a newline, then the greedy \<open>\s*\<close> takes the whole run of
  whitespace behind it and gives characters back until \<open>\n+\<close> finds a newline, which is
  the last newline of that run. The match reaches from the first newline to that last
  one; there is none when the run holds no further newline.
\<close>

definition match_blank_lines :: "string \<Rightarrow> nat option" where
  "match_blank_lines s =
     (case s of
        [] \<Rightarrow> None
      | c # cs \<Rightarrow>
          if c \<noteq> nl then None
          else (let run = takeWhile py_isspace cs;
                    k = length (dropWhile (\<lambda>x. x \<noteq> nl) (rev run))
                in if k = 0 then None else Some (Suc k)))"

text \<open>The pattern \<open> +\<close>: one or more space characters.\<close>

definition match_spaces :: "string \<Rightarrow> nat option" where
  "match_spaces s =
     (let k = length (takeWhile (\<lambda>x. x = sp) s) in if k = 0 then None else Some k)"

definition sub_blank_lines :: "string \<Rightarrow> string" where
  "sub_blank_lines s = re_sub match_blank_lines [nl, nl] s"

definition sub_spaces :: "string \<Rightarrow> string" where
  "sub_spaces s = re_sub match_spaces [sp] s"

text \<open>The description of a section, from its content fragments (lines 57 to 61).\<close>

definition normalize_description :: "string list \<Rightarrow> string" where
  "normalize_description parts =
     py_strip (sub_spaces (sub_blank_lines (py_strip (py_join [] parts))))"

section \<open>ContentParser\<close>

text \<open>
  \<open>TypeError\<close> is what a handler of the subclass can raise, \<open>AssertionError\<close> what the
  inherited class raises on markup it does not accept.
\<close>

datatype error = TypeError | AssertionError

type_synonym attrs = "(string \<times> string option) list"

text \<open>The handler calls that \<open>HTMLParser.feed\<close> makes on the subclass.\<close>

datatype event = StartTag string attrs | EndTag string | Data string

record section_rec =
  headingType :: string
  section_text :: string
  description :: string

text \<open>
  The instance: \<open>base\<close> is the state inherited from \<open>HTMLParser\<close> (its buffer of
  unprocessed markup and its modes), the other fields are those of \<open>__init__\<close>.
  \<open>preserve_tags\<close> is never assigned after \<open>__init__\<close> and is a constant here.
\<close>

record 'l parser =
  base :: 'l
  sections :: "section_rec list"
  current_heading :: "string option"
  current_heading_type :: "string option"
  current_content :: "string list"
  in_heading :: bool
  tag_stack :: "string list"

definition heading_tags :: "string list" where
  "heading_tags = [''h1'', ''h2'', ''h3'', ''h4'', ''h5'', ''h6'']"

definition preserve_tags :: "string list" where
  "preserve_tags = [''b'', ''strong'', ''i'', ''em'', ''a'', ''sup'', ''sub'']"

text \<open>\<open>ContentParser()\<close>; \<open>b0\<close> is the state \<open>HTMLParser.reset\<close> establishes.\<close>

definition init_parser :: "'l \<Rightarrow> 'l parser" where
  "init_parser b0 =
     \<lparr>base = b0, sections = [], current_heading = None, current_heading_type = None,
      current_content = [], in_heading = False, tag_stack = []\<rparr>"

text \<open>Truthiness of \<open>self.current_heading\<close>: neither \<open>None\<close> nor the empty string.\<close>

fun truthy :: "string option \<Rightarrow> bool" where
  "truthy None = False"
| "truthy (Some s) = (s \<noteq> [])"

text \<open>\<open>x or d\<close> and \<open>x.strip() if x else ''\<close> on an optional string.\<close>

definition or_default :: "string option \<Rightarrow> string \<Rightarrow> string" where
  "or_default x d = (case x of None \<Rightarrow> d | Some s \<Rightarrow> if s = [] then d else s)"

definition strip_or_empty :: "string option \<Rightarrow> string" where
  "strip_or_empty x = (case x of None \<Rightarrow> [] | Some s \<Rightarrow> if s = [] then [] else py_strip s)"

definition make_section :: "'l parser \<Rightarrow> section_rec" where
  "make_section p =
     \<lparr>headingType = or_default (current_heading_type p) ''p'',
      section_text = strip_or_empty (current_heading p),
      description = normalize_description (current_content p)\<rparr>"

definition save_section :: "'l parser \<Rightarrow> 'l parser" where
  "save_section p =
     (let p1 = (if truthy (current_heading p) \<or> current_content p \<noteq> []
                then p\<lparr>sections := sections p @ [make_section p]\<rparr>
                else p)
      in p1\<lparr>current_heading := None, current_heading_type := None, current_content := []\<rparr>)"

definition render_attr :: "string \<times> string option \<Rightarrow> string" where
  "render_attr kv = fst kv @ [CHR ''='', CHR 0x22] @ py_str (snd kv) @ [CHR 0x22]"

definition handle_starttag :: "'l parser \<Rightarrow> string \<Rightarrow> attrs \<Rightarrow> 'l parser" where
  "handle_starttag p tag ats =
     (if tag \<in> set heading_tags then
        (let p1 = (if current_heading p \<noteq> None then save_section p else p)
         in p1\<lparr>current_heading_type := Some tag, current_heading := Some [],
                in_heading := True\<rparr>)
      else if tag \<in> set preserve_tags then
        (let attrs_str = py_join '' '' (map render_attr ats)
         in p\<lparr>current_content := current_content p @
                  [if attrs_str \<noteq> [] then ''<'' @ tag @ '' '' @ attrs_str @ ''>''
                   else ''<'' @ tag @ ''>''],
               tag_stack := tag_stack p @ [tag]\<rparr>)
      else if tag = ''br'' then p\<lparr>current_content := current_content p @ [[nl]]\<rparr>
      else p)"

definition handle_endtag :: "'l parser \<Rightarrow> string \<Rightarrow> 'l parser" where
  "handle_endtag p tag =
     (if tag \<in> set heading_tags then p\<lparr>in_heading := False\<rparr>
      else if tag \<in> set preserve_tags then
        (if tag_stack p \<noteq> [] \<and> last (tag_stack p) = tag
         then p\<lparr>current_content := current_content p @ [''</'' @ tag @ ''>''],
                tag_stack := butlast (tag_stack p)\<rparr>
         else p)
      else p)"

text \<open>
  \<open>self.current_heading += data\<close> raises \<open>TypeError\<close> when the heading is
  \<open>None\<close>.
\<close>

definition handle_data :: "'l parser \<Rightarrow> string \<Rightarrow> error + 'l parser" where
  "handle_data p data =
     (if in_heading p then
        (case current_heading p of
           None \<Rightarrow> Inl TypeError
         | Some h \<Rightarrow> Inr (p\<lparr>current_heading := Some (h @ data)\<rparr>))
      else Inr (p\<lparr>current_content := current_content p @ [data]\<rparr>))"

fun dispatch :: "'l parser \<Rightarrow> event \<Rightarrow> error + 'l parser" where
  "dispatch p (StartTag tag ats) = Inr (handle_starttag p tag ats)"
| "dispatch p (EndTag tag) = Inr (handle_endtag p tag)"
| "dispatch p (Data d) = handle_data p d"

fun run_events :: "'l parser \<Rightarrow> event list \<Rightarrow> error + 'l parser" where
  "run_events p [] = Inr p"
| "run_events p (e # es) =
     (case dispatch p e of Inl err \<Rightarrow> Inl err | Inr p' \<Rightarrow> run_events p' es)"

text \<open>
  \<open>HTMLParser.feed\<close> is library code. It is taken as the parameter \<open>sc\<close>: from the
  inherited state and the new data it gives the handler calls it makes, in order, and the
  inherited state it leaves (what stays buffered for a later \<open>feed\<close>). The handlers never
  touch the inherited state and the library never reads the subclass fields. Here the
  library is taken to return; \<open>feed_raising\<close> below is \<open>feed\<close> with the exceptions of the
  library.
\<close>

type_synonym 'l scanner = "'l \<Rightarrow> string \<Rightarrow> event list \<times> 'l"

definition feed :: "'l scanner \<Rightarrow> 'l parser \<Rightarrow> string \<Rightarrow> error + 'l parser" where
  "feed sc p data = (case sc (base p) data of (evs, b) \<Rightarrow> run_events (p\<lparr>base := b\<rparr>) evs)"

definition reset_fields :: "'l parser \<Rightarrow> 'l parser" where
  "reset_fields p =
     p\<lparr>sections := [], current_heading := None, current_heading_type := None,
       current_content := [], in_heading := False, tag_stack := []\<rparr>"

definition parse_content ::
  "'l scanner \<Rightarrow> 'l parser \<Rightarrow> string \<Rightarrow> error + (section_rec list \<times> 'l parser)" where
  "parse_content sc p html_content =
     (if html_content = [] \<or> py_strip html_content = [] then Inr ([], p)
      else
        (case feed sc (reset_fields p) html_content of
           Inl err \<Rightarrow> Inl err
         | Inr p2 \<Rightarrow>
             (let p3 = (if current_heading p2 \<noteq> None \<or> current_content p2 \<noteq> []
                        then save_section p2 else p2)
              in Inr (sections p3, p3))))"

text \<open>
  The library's exceptions made visible. \<open>HTMLParser.feed\<close> can end in an exception
  after some of its handler calls: a scanner of this kind gives the handler calls made
  and either the exception or the inherited state that is left. The calls are made while
  the library scans, so an exception of a handler comes before that of the library.
  \<open>parse_content_raising\<close> is \<open>parse_content\<close> over such a scanner.
\<close>

type_synonym 'l raising_scanner = "'l \<Rightarrow> string \<Rightarrow> event list \<times> (error + 'l)"

definition feed_raising ::
  "'l raising_scanner \<Rightarrow> 'l parser \<Rightarrow> string \<Rightarrow> error + 'l parser" where
  "feed_raising rsc p data =
     (case rsc (base p) data of
        (evs, out) \<Rightarrow>
          (case run_events p evs of
             Inl err \<Rightarrow> Inl err
           | Inr p' \<Rightarrow> (case out of Inl err \<Rightarrow> Inl err | Inr b \<Rightarrow> Inr (p'\<lparr>base := b\<rparr>))))"

definition parse_content_raising ::
  "'l raising_scanner \<Rightarrow> 'l parser \<Rightarrow> string \<Rightarrow> error + (section_rec list \<times> 'l parser)" where
  "parse_content_raising rsc p html_content =
     (if html_content = [] \<or> py_strip html_content = [] then Inr ([], p)
      else
        (case feed_raising rsc (reset_fields p) html_content of
           Inl err \<Rightarrow> Inl err
         | Inr p2 \<Rightarrow>
             (let p3 = (if current_heading p2 \<noteq> None \<or> current_content p2 \<noteq> []
                        then save_section p2 else p2)
              in Inr (sections p3, p3))))"

text \<open>A scanner that returns, as one that can raise but never does.\<close>

definition never_raising :: "'l scanner \<Rightarrow> 'l raising_scanner" where
  "never_raising sc b s = (case sc b s of (evs, b') \<Rightarrow> (evs, Inr b'))"

section \<open>The tokenizer of the inherited class\<close>

text \<open>
  Modelled from the spec: the tokenizer of the Markup Sectionizer (section 4.1: a single
  forward pass that recognises start tags, end tags and text data) is \<open>feed\<close> of
  Python's \<open>html.parser.HTMLParser\<close>, which is not among the repository's sources.
  \<open>html_scan\<close> follows its \<open>goahead(0)\<close> on markup made of
  \<^item> text without \<open>&\<close>, passed to \<open>handle_data\<close> up to the next \<open><\<close>;
  \<^item> start tags \<open><name ...>\<close> and \<open><name .../>\<close> with attributes \<open>name\<close>,
    \<open>name="v"\<close>, \<open>name='v'\<close> and \<open>name=v\<close>, names lower-cased, a valueless attribute
    reported with the value \<open>None\<close>;
  \<^item> end tags \<open></name>\<close>;
  \<^item> a \<open><\<close> that opens none of these, passed on as the text \<open><\<close>.
  A tag that the buffer does not hold to its end is left in the buffer, with everything
  behind it, for the next \<open>feed\<close>: that is the inherited state. Character references,
  comments, declarations, processing instructions and the \<open>script\<close>/\<open>style\<close> modes
  are outside this model; the general theorems below do not depend on it, they hold for
  every scanner.
\<close>

definition is_ascii_letter :: "char \<Rightarrow> bool" where
  "is_ascii_letter c \<longleftrightarrow> c \<in> set ''abcdefghijklmnopqrstuvwxyzABCDEFGHIJKLMNOPQRSTUVWXYZ''"

definition py_lower_char :: "char \<Rightarrow> char" where
  "py_lower_char c =
     (let n = (of_char c :: nat)
      in if (65 \<le> n \<and> n \<le> 90) \<or> (192 \<le> n \<and> n \<le> 214) \<or> (216 \<le> n \<and> n \<le> 222)
         then char_of (n + 32) else c)"

definition py_lower :: "string \<Rightarrow> string" where
  "py_lower s = map py_lower_char s"

definition tagname_char :: "char \<Rightarrow> bool" where
  "tagname_char c \<longleftrightarrow>
     c \<notin> set [CHR 0x09, CHR 0x0A, CHR 0x0D, CHR 0x0C, CHR 0x20, CHR ''/'', CHR ''>'', CHR 0x00]"

definition endname_char :: "char \<Rightarrow> bool" where
  "endname_char c \<longleftrightarrow>
     c \<in> set ''-.abcdefghijklmnopqrstuvwxyzABCDEFGHIJKLMNOPQRSTUVWXYZ0123456789:_''"

definition attrname_char :: "char \<Rightarrow> bool" where
  "attrname_char c \<longleftrightarrow> \<not> py_isspace c \<and> c \<notin> set ''/=>''"

definition bare_char :: "char \<Rightarrow> bool" where
  "bare_char c \<longleftrightarrow> \<not> py_isspace c \<and> c \<noteq> CHR ''>''"

text \<open>
  The attributes behind a tag name: \<open>AIncomplete\<close> when the buffer ends inside the tag,
  otherwise the attributes, whether the tag ends in \<open>/>\<close>, and what follows the tag.
\<close>

datatype attr_result = AIncomplete | ADone attrs bool string

function parse_attrs :: "string \<Rightarrow> attrs \<Rightarrow> attr_result" where
  "parse_attrs [] acc = AIncomplete"
| "parse_attrs (c # cs) acc =
     (if py_isspace c then parse_attrs cs acc
      else if c = CHR ''/'' then
        (case cs of
           [] \<Rightarrow> AIncomplete
         | d # ds \<Rightarrow> if d = CHR ''>'' then ADone acc True ds else parse_attrs cs acc)
      else if c = CHR ''>'' then ADone acc False cs
      else
        (let name = py_lower (c # takeWhile attrname_char cs)
         in case dropWhile attrname_char cs of
              [] \<Rightarrow> AIncomplete
            | e # es \<Rightarrow>
                if e \<noteq> CHR ''='' then parse_attrs (e # es) (acc @ [(name, None)])
                else
                  (case dropWhile (\<lambda>x. x = CHR ''='') es of
                     [] \<Rightarrow> AIncomplete
                   | q # r3 \<Rightarrow>
                       if q = CHR 0x22 \<or> q = CHR 0x27 then
                         (if q \<in> set r3
                          then parse_attrs (tl (dropWhile (\<lambda>x. x \<noteq> q) r3))
                                 (acc @ [(name, Some (takeWhile (\<lambda>x. x \<noteq> q) r3))])
                          else AIncomplete)
                       else parse_attrs (dropWhile bare_char (q # r3))
                              (acc @ [(name, Some (takeWhile bare_char (q # r3)))]))))"
  by pat_completeness auto
termination
proof (relation "measure (\<lambda>(s, acc). length s)", goal_cases)
  case 1 show ?case by simp
next
  case 2 then show ?case by simp
next
  case 3 then show ?case by simp
next
  case (4 c cs acc name e es)
  have "length (dropWhile attrname_char cs) \<le> length cs"
    by (rule length_dropWhile_le)
  with 4 show ?case by simp
next
  case (5 c cs acc name e es q r3)
  have "length (dropWhile attrname_char cs) \<le> length cs"
    by (rule length_dropWhile_le)
  with 5 have "length es < length cs" by simp
  moreover have "length (dropWhile (\<lambda>x. x = CHR ''='') es) \<le> length es"
    by (rule length_dropWhile_le)
  with 5 have "length r3 < length es" by simp
  moreover have "length (tl (dropWhile (\<lambda>x. x \<noteq> q) r3)) \<le> length r3"
    using length_dropWhile_le [of "\<lambda>x. x \<noteq> q" r3] by simp
  ultimately show ?case by simp
next
  case (6 c cs acc name e es q r3)
  have "length (dropWhile attrname_char cs) \<le> length cs"
    by (rule length_dropWhile_le)
  with 6 have "length es < length cs" by simp
  moreover have "length (dropWhile (\<lambda>x. x = CHR ''='') es) \<le> length es"
    by (rule length_dropWhile_le)
  with 6 have "length r3 < length es" by simp
  moreover have "length (dropWhile bare_char (q # r3)) \<le> length (q # r3)"
    by (rule length_dropWhile_le)
  ultimately show ?case by simp
qed

text \<open>
  A construct that starts with \<open><\<close>, given the buffer behind that character: the handler
  calls it causes and the number of characters it takes behind the \<open><\<close>.
\<close>

datatype tag_result = Incomplete | Parsed "event list" nat

definition parse_starttag :: "string \<Rightarrow> tag_result" where
  "parse_starttag s =
     (let tag = py_lower (takeWhile tagname_char s)
      in case parse_attrs (dropWhile tagname_char s) [] of
           AIncomplete \<Rightarrow> Incomplete
         | ADone ats selfclosing rest \<Rightarrow>
             Parsed (if selfclosing then [StartTag tag ats, EndTag tag] else [StartTag tag ats])
                    (length s - length rest))"

definition endtag_events :: "string \<Rightarrow> event list" where
  "endtag_events inner =
     (let t = dropWhile py_isspace inner
      in if t \<noteq> [] \<and> is_ascii_letter (hd t) \<and>
            (\<forall>c \<in> set (dropWhile endname_char t). py_isspace c)
         then [EndTag (py_lower (takeWhile endname_char t))]
         else if inner \<noteq> [] \<and> is_ascii_letter (hd inner)
         then [EndTag (py_lower (takeWhile tagname_char inner))]
         else [])"

definition parse_endtag :: "string \<Rightarrow> tag_result" where
  "parse_endtag s =
     (if CHR ''>'' \<in> set s
      then (let inner = takeWhile (\<lambda>x. x \<noteq> CHR ''>'') s
            in Parsed (endtag_events inner) (length inner + 2))
      else Incomplete)"

definition parse_tag :: "string \<Rightarrow> tag_result" where
  "parse_tag s =
     (case s of
        [] \<Rightarrow> Incomplete
      | d # ds \<Rightarrow>
          if is_ascii_letter d then parse_starttag s
          else if d = CHR ''/'' then parse_endtag ds
          else Parsed [Data ''<''] 0)"

function goahead :: "string \<Rightarrow> event list \<times> string" where
  "goahead [] = ([], [])"
| "goahead (c # cs) =
     (if c \<noteq> CHR ''<'' then
        (case goahead (dropWhile (\<lambda>x. x \<noteq> CHR ''<'') cs) of
           (evs, rest) \<Rightarrow> (Data (c # takeWhile (\<lambda>x. x \<noteq> CHR ''<'') cs) # evs, rest))
      else
        (case parse_tag cs of
           Incomplete \<Rightarrow> ([], c # cs)
         | Parsed evs k \<Rightarrow>
             (case goahead (drop k cs) of (evs', rest) \<Rightarrow> (evs @ evs', rest))))"
  by pat_completeness auto
termination
proof (relation "measure length", goal_cases)
  case 1 show ?case by simp
next
  case (2 c cs)
  have "length (dropWhile (\<lambda>x. x \<noteq> CHR ''<'') cs) \<le> length cs"
    by (rule length_dropWhile_le)
  then show ?case by simp
next
  case (3 c cs evs k)
  show ?case by simp
qed

text \<open>The inherited state is the buffer \<open>rawdata\<close>; \<open>feed\<close> appends to it and scans.\<close>

definition html_scan :: "string scanner" where
  "html_scan rawdata data = goahead (rawdata @ data)"

subsection \<open>Marked sections\<close>

text \<open>
  Modelled from the spec: the same tokenizer with the one construct on which the library
  (Python 3.11, \<open>_markupbase.ParserBase.parse_marked_section\<close>, reached from
  \<open>goahead\<close> through \<open>parse_html_declaration\<close>) raises. Behind \<open><![\<close> it scans a
  name, \<open>[a-zA-Z][-_.a-zA-Z0-9]*\<close> and whitespace: no name raises
  \<open>AssertionError\<close>, a name that reaches the end of the buffer is incomplete. The
  keywords \<open>temp\<close>, \<open>cdata\<close>, \<open>ignore\<close>, \<open>include\<close>, \<open>rcdata\<close> take the section up to
  the first \<open>]\s*]\s*>\<close>, the keywords \<open>if\<close>, \<open>else\<close>, \<open>endif\<close> up to the first
  \<open>]\s*>\<close>, without a handler call of the subclass; any other keyword raises
  \<open>AssertionError\<close>.
\<close>

definition declname_char :: "char \<Rightarrow> bool" where
  "declname_char c \<longleftrightarrow>
     c \<in> set ''-_.abcdefghijklmnopqrstuvwxyzABCDEFGHIJKLMNOPQRSTUVWXYZ0123456789''"

text \<open>The length of a match of \<open>]\s*>\<close>, and of \<open>]\s*]\s*>\<close>, at the start of a string.\<close>

definition close_bracket :: "string \<Rightarrow> nat option" where
  "close_bracket t =
     (case t of
        [] \<Rightarrow> None
      | c # r \<Rightarrow>
          if c \<noteq> CHR '']'' then None
          else (case dropWhile py_isspace r of
                  [] \<Rightarrow> None
                | d # _ \<Rightarrow>
                    if d = CHR ''>'' then Some (length (takeWhile py_isspace r) + 2) else None))"

definition close_brackets :: "string \<Rightarrow> nat option" where
  "close_brackets t =
     (case t of
        [] \<Rightarrow> None
      | c # r \<Rightarrow>
          if c \<noteq> CHR '']'' then None
          else (case close_bracket (dropWhile py_isspace r) of
                  None \<Rightarrow> None
                | Some k \<Rightarrow> Some (length (takeWhile py_isspace r) + 1 + k)))"

text \<open>\<open>pattern.search\<close>: where the leftmost match ends, counted from the start.\<close>

fun search_end :: "(string \<Rightarrow> nat option) \<Rightarrow> string \<Rightarrow> nat option" where
  "search_end m [] = None"
| "search_end m (c # cs) =
     (case m (c # cs) of
        Some k \<Rightarrow> Some k
      | None \<Rightarrow> map_option Suc (search_end m cs))"

text \<open>The buffer behind \<open><![\<close>; the count of \<open>Parsed\<close> is taken behind the \<open><\<close>.\<close>

definition parse_marked_section :: "string \<Rightarrow> error + tag_result" where
  "parse_marked_section s =
     (case s of
        [] \<Rightarrow> Inr Incomplete
      | c # cs \<Rightarrow>
          if \<not> is_ascii_letter c then Inl AssertionError
          else if dropWhile py_isspace (dropWhile declname_char cs) = [] then Inr Incomplete
          else
            (let sectName = py_lower (c # takeWhile declname_char cs);
                 closing =
                   (if sectName \<in> set [''temp'', ''cdata'', ''ignore'', ''include'', ''rcdata'']
                    then Some close_brackets
                    else if sectName \<in> set [''if'', ''else'', ''endif'']
                    then Some close_bracket
                    else None)
             in case closing of
                  None \<Rightarrow> Inl AssertionError
                | Some m \<Rightarrow>
                    (case search_end m s of
                       None \<Rightarrow> Inr Incomplete
                     | Some e \<Rightarrow> Inr (Parsed [] (e + 2)))))"

definition parse_tag_raising :: "string \<Rightarrow> error + tag_result" where
  "parse_tag_raising s =
     (if take 2 s = ''!['' then parse_marked_section (drop 2 s) else Inr (parse_tag s))"

function goahead_raising :: "string \<Rightarrow> event list \<times> (error + string)" where
  "goahead_raising [] = ([], Inr [])"
| "goahead_raising (c # cs) =
     (if c \<noteq> CHR ''<'' then
        (case goahead_raising (dropWhile (\<lambda>x. x \<noteq> CHR ''<'') cs) of
           (evs, out) \<Rightarrow> (Data (c # takeWhile (\<lambda>x. x \<noteq> CHR ''<'') cs) # evs, out))
      else
        (case parse_tag_raising cs of
           Inl err \<Rightarrow> ([], Inl err)
         | Inr Incomplete \<Rightarrow> ([], Inr (c # cs))
         | Inr (Parsed evs k) \<Rightarrow>
             (case goahead_raising (drop k cs) of (evs', out) \<Rightarrow> (evs @ evs', out))))"
  by pat_completeness auto
termination
proof (relation "measure length", goal_cases)
  case 1 show ?case by simp
next
  case (2 c cs)
  have "length (dropWhile (\<lambda>x. x \<noteq> CHR ''<'') cs) \<le> length cs"
    by (rule length_dropWhile_le)
  then show ?case by simp
next
  case (3 c cs r evs k)
  show ?case by simp
qed

definition html_scan_raising :: "string raising_scanner" where
  "html_scan_raising rawdata data = goahead_raising (rawdata @ data)"

text \<open>A buffer in which no \<open><![\<close> occurs.\<close>

fun no_marked_section :: "string \<Rightarrow> bool" where
  "no_marked_section [] = True"
| "no_marked_section (c # cs) = (take 3 (c # cs) \<noteq> ''<!['' \<and> no_marked_section cs)"

section \<open>The tree walk\<close>

text \<open>
  The value \<open>json.load\<close> returns. A \<open>dict\<close> is the list of its items in insertion
  order; the representation of a float is the parameter \<open>'f\<close>.
\<close>

datatype 'f json =
    JObject "(string \<times> 'f json) list"
  | JArray "'f json list"
  | JString string
  | JInt int
  | JFloat 'f
  | JBool bool
  | JNull

text \<open>\<open>d[key] = v\<close>: an existing key keeps its place, a new key goes to the end.\<close>

fun dict_set :: "(string \<times> 'v) list \<Rightarrow> string \<Rightarrow> 'v \<Rightarrow> (string \<times> 'v) list" where
  "dict_set [] key v = [(key, v)]"
| "dict_set ((k, w) # rest) key v =
     (if k = key then (k, v) # rest else (k, w) # dict_set rest key v)"

fun as_str :: "'f json \<Rightarrow> string option" where
  "as_str (JString s) = Some s"
| "as_str _ = None"

text \<open>The \<open>dict\<close> that \<open>_save_section\<close> appends, as a value of the tree.\<close>

definition section_json :: "section_rec \<Rightarrow> 'f json" where
  "section_json s =
     JObject [(''headingType'', JString (headingType s)),
              (''section'', JString (section_text s)),
              (''description'', JString (description s))]"

text \<open>
  \<open>transform_items\<close> is the loop over \<open>obj.items()\<close> with \<open>new_obj\<close> as accumulator,
  \<open>transform_list\<close> the list comprehension; the parser instance is threaded through.
\<close>

fun transform_content_fields ::
    "'l scanner \<Rightarrow> 'f json \<Rightarrow> 'l parser \<Rightarrow> error + ('f json \<times> 'l parser)"
  and transform_items ::
    "'l scanner \<Rightarrow> (string \<times> 'f json) list \<Rightarrow> (string \<times> 'f json) list \<Rightarrow> 'l parser
       \<Rightarrow> error + ((string \<times> 'f json) list \<times> 'l parser)"
  and transform_list ::
    "'l scanner \<Rightarrow> 'f json list \<Rightarrow> 'l parser \<Rightarrow> error + ('f json list \<times> 'l parser)"
where
  "transform_content_fields sc (JObject kvs) p =
     (case transform_items sc kvs [] p of
        Inl err \<Rightarrow> Inl err
      | Inr (new_obj, p') \<Rightarrow> Inr (JObject new_obj, p'))"
| "transform_content_fields sc (JArray xs) p =
     (case transform_list sc xs p of
        Inl err \<Rightarrow> Inl err
      | Inr (ys, p') \<Rightarrow> Inr (JArray ys, p'))"
| "transform_content_fields sc (JString s) p = Inr (JString s, p)"
| "transform_content_fields sc (JInt i) p = Inr (JInt i, p)"
| "transform_content_fields sc (JFloat f) p = Inr (JFloat f, p)"
| "transform_content_fields sc (JBool b) p = Inr (JBool b, p)"
| "transform_content_fields sc JNull p = Inr (JNull, p)"
| "transform_items sc [] new_obj p = Inr (new_obj, p)"
| "transform_items sc ((key, value) # rest) new_obj p =
     (case (case (if key = ''content'' then as_str value else None) of
              Some s \<Rightarrow>
                (case parse_content sc p s of
                   Inl err \<Rightarrow> Inl err
                 | Inr (secs, p') \<Rightarrow> Inr (JArray (map section_json secs), p'))
            | None \<Rightarrow> transform_content_fields sc value p) of
        Inl err \<Rightarrow> Inl err
      | Inr (v, p') \<Rightarrow> transform_items sc rest (dict_set new_obj key v) p')"
| "transform_list sc [] p = Inr ([], p)"
| "transform_list sc (x # xs) p =
     (case transform_content_fields sc x p of
        Inl err \<Rightarrow> Inl err
      | Inr (y, p') \<Rightarrow>
          (case transform_list sc xs p' of
             Inl err \<Rightarrow> Inl err
           | Inr (ys, p'') \<Rightarrow> Inr (y # ys, p'')))"

section \<open>Properties the specification names\<close>

text \<open>A \<open>dict\<close> has no key twice.\<close>

fun wf_json :: "'f json \<Rightarrow> bool" where
  "wf_json (JObject kvs) = (distinct (map fst kvs) \<and> list_all wf_json (map snd kvs))"
| "wf_json (JArray xs) = list_all wf_json xs"
| "wf_json _ = True"

fun is_section_json :: "'f json \<Rightarrow> bool" where
  "is_section_json (JObject [(k1, JString a), (k2, JString b), (k3, JString c)]) =
     (k1 = ''headingType'' \<and> k2 = ''section'' \<and> k3 = ''description'')"
| "is_section_json _ = False"

fun is_sections :: "'f json \<Rightarrow> bool" where
  "is_sections (JArray xs) = list_all is_section_json xs"
| "is_sections _ = False"

text \<open>
  The frame of the rewrite, in the specification's words: an object keeps its keys in
  their order, a string under the key \<open>content\<close> becomes a sequence of section records,
  every other value of an object and every element of a sequence is rewritten in turn,
  and a scalar stays what it is.
\<close>

fun frame :: "'f json \<Rightarrow> 'f json \<Rightarrow> bool" where
  "frame (JObject kvs) d' =
     (case d' of
        JObject kvs' \<Rightarrow>
          list_all2 (\<lambda>kv kv'. fst kv' = fst kv \<and>
                       (if fst kv = ''content'' \<and> as_str (snd kv) \<noteq> None
                        then is_sections (snd kv') else frame (snd kv) (snd kv'))) kvs kvs'
      | _ \<Rightarrow> False)"
| "frame (JArray xs) d' = (case d' of JArray ys \<Rightarrow> list_all2 frame xs ys | _ \<Rightarrow> False)"
| "frame d d' = (d' = d)"

text \<open>
  A string that does not end, or does not start, in a character of the given kind:
  the neighbours of a maximal run.
\<close>

definition ends_without :: "(char \<Rightarrow> bool) \<Rightarrow> string \<Rightarrow> bool" where
  "ends_without P u = (case rev u of [] \<Rightarrow> True | c # _ \<Rightarrow> \<not> P c)"

definition starts_without :: "(char \<Rightarrow> bool) \<Rightarrow> string \<Rightarrow> bool" where
  "starts_without P v = (case v of [] \<Rightarrow> True | c # _ \<Rightarrow> \<not> P c)"



text \<open>One item of an object and its rewritten item, as \<open>frame\<close> relates them.\<close>

definition frame_item :: "string \<times> 'f json \<Rightarrow> string \<times> 'f json \<Rightarrow> bool" where
  "frame_item kv kv' \<longleftrightarrow>
     fst kv' = fst kv \<and>
     (if fst kv = ''content'' \<and> as_str (snd kv) \<noteq> None
      then is_sections (snd kv') else frame (snd kv) (snd kv'))"

text \<open>The invariant of the pass: text is routed to the heading only while a heading exists.\<close>

definition heading_open :: "'l parser \<Rightarrow> bool" where
  "heading_open p \<longleftrightarrow> (in_heading p \<longrightarrow> current_heading p \<noteq> None)"

section \<open>Proofs\<close>

lemma preserve_not_heading: "tag \<in> set preserve_tags \<Longrightarrow> tag \<notin> set heading_tags"
  by (auto simp: preserve_tags_def heading_tags_def)

lemma render_attr_nonempty: "render_attr kv \<noteq> []"
  by (simp add: render_attr_def)

lemma py_join_nonempty: "xs \<noteq> [] \<Longrightarrow> \<forall>x \<in> set xs. x \<noteq> [] \<Longrightarrow> py_join sep xs \<noteq> []"
  by (induction sep xs rule: py_join.induct) auto

lemma attrs_str_empty_iff: "py_join sep (map render_attr ats) = [] \<longleftrightarrow> ats = []"
proof
  assume "py_join sep (map render_attr ats) = []"
  then show "ats = []"
    using py_join_nonempty [of "map render_attr ats" sep] render_attr_nonempty by auto
next
  assume "ats = []" then show "py_join sep (map render_attr ats) = []" by simp
qed

lemma py_strip_blank: "\<forall>c \<in> set s. py_isspace c \<Longrightarrow> py_strip s = []"
proof -
  assume "\<forall>c \<in> set s. py_isspace c"
  then have d: "dropWhile py_isspace s = []" by (induction s) auto
  show ?thesis unfolding py_strip_def d by simp
qed

lemma save_section_fields:
  "in_heading (save_section p) = in_heading p"
  "base (save_section p) = base p"
  "tag_stack (save_section p) = tag_stack p"
  "current_heading (save_section p) = None"
  "current_heading_type (save_section p) = None"
  "current_content (save_section p) = []"
  by (simp_all add: save_section_def Let_def)

lemma save_section_sections:
  "sections (save_section p) =
     sections p @ (if truthy (current_heading p) \<or> current_content p \<noteq> []
                   then [make_section p] else [])"
  by (simp add: save_section_def Let_def)

lemma handle_starttag_open: "heading_open p \<Longrightarrow> heading_open (handle_starttag p tag ats)"
  by (auto simp: handle_starttag_def heading_open_def Let_def)

lemma handle_endtag_open: "heading_open p \<Longrightarrow> heading_open (handle_endtag p tag)"
  by (auto simp: handle_endtag_def heading_open_def)

lemma handle_data_open:
  "heading_open p \<Longrightarrow> \<exists>p'. handle_data p d = Inr p' \<and> heading_open p'"
  by (auto simp: handle_data_def heading_open_def split: option.splits)

lemma dispatch_open:
  "heading_open p \<Longrightarrow> \<exists>p'. dispatch p e = Inr p' \<and> heading_open p'"
  by (cases e) (simp_all add: handle_starttag_open handle_endtag_open handle_data_open)

lemma run_events_open:
  "heading_open p \<Longrightarrow> \<exists>p'. run_events p evs = Inr p' \<and> heading_open p'"
proof (induction evs arbitrary: p)
  case Nil
  then show ?case by simp
next
  case (Cons e evs)
  from dispatch_open [OF Cons.prems] obtain p1 where
    d: "dispatch p e = Inr p1" and o: "heading_open p1" by blast
  from Cons.IH [OF o] d show ?case by simp
qed

lemma feed_total: "\<exists>p'. feed sc (reset_fields p) s = Inr p'"
proof -
  obtain evs b where sc: "sc (base (reset_fields p)) s = (evs, b)"
    by (cases "sc (base (reset_fields p)) s")
  have "heading_open ((reset_fields p)\<lparr>base := b\<rparr>)"
    by (simp add: heading_open_def reset_fields_def)
  from run_events_open [OF this, of evs] sc show ?thesis
    by (auto simp: feed_def)
qed

lemma parse_content_total: "\<exists>secs p'. parse_content sc p s = Inr (secs, p')"
proof -
  from feed_total [of sc p s] obtain p2 where "feed sc (reset_fields p) s = Inr p2" ..
  then show ?thesis by (simp add: parse_content_def Let_def)
qed

subsection \<open>Exceptions\<close>

text \<open>
  The model without exceptions of the library is the model with them at a scanner that
  never raises, and the two tokenizers agree on a buffer without \<open><![\<close>.
\<close>

lemma save_section_base_update: "save_section (p\<lparr>base := b\<rparr>) = (save_section p)\<lparr>base := b\<rparr>"
  by (simp add: save_section_def make_section_def Let_def)

lemma dispatch_base_update:
  "dispatch (p\<lparr>base := b\<rparr>) e = map_sum id (\<lambda>p'. p'\<lparr>base := b\<rparr>) (dispatch p e)"
  by (cases e)
     (auto simp: handle_starttag_def handle_endtag_def handle_data_def Let_def
        save_section_base_update split: option.splits)

lemma run_events_base_update:
  "run_events (p\<lparr>base := b\<rparr>) evs = map_sum id (\<lambda>p'. p'\<lparr>base := b\<rparr>) (run_events p evs)"
proof (induction evs arbitrary: p)
  case Nil
  show ?case by simp
next
  case (Cons e evs)
  show ?case
    by (cases "dispatch p e") (simp_all add: dispatch_base_update Cons.IH)
qed

lemma feed_never_raising: "feed_raising (never_raising sc) p s = feed sc p s"
proof -
  obtain evs b where sc: "sc (base p) s = (evs, b)" by (cases "sc (base p) s")
  show ?thesis
    by (cases "run_events p evs")
       (simp_all add: feed_raising_def feed_def never_raising_def sc run_events_base_update)
qed

lemma parse_content_never_raising:
  "parse_content_raising (never_raising sc) p s = parse_content sc p s"
  by (simp add: parse_content_raising_def parse_content_def feed_never_raising)

lemma no_marked_section_drop: "no_marked_section s \<Longrightarrow> no_marked_section (drop k s)"
proof (induction s arbitrary: k)
  case Nil
  then show ?case by simp
next
  case (Cons c cs)
  then show ?case by (cases k) simp_all
qed

lemma no_marked_section_dropWhile: "no_marked_section s \<Longrightarrow> no_marked_section (dropWhile P s)"
  by (induction s) simp_all

lemma goahead_raising_agrees:
  "no_marked_section s \<Longrightarrow> goahead_raising s = (case goahead s of (evs, r) \<Rightarrow> (evs, Inr r))"
proof (induction s rule: goahead.induct)
  case 1
  show ?case by simp
next
  case (2 c cs)
  show ?case
  proof (cases "c = CHR ''<''")
    case False
    from 2(3) have "no_marked_section (dropWhile (\<lambda>x. x \<noteq> CHR ''<'') cs)"
      by (simp add: no_marked_section_dropWhile)
    from 2(1) [OF False this] False show ?thesis by (simp split: prod.splits)
  next
    case True
    with 2(3) have "take 2 cs \<noteq> ''![''" by auto
    then have pt: "parse_tag_raising cs = Inr (parse_tag cs)"
      by (simp add: parse_tag_raising_def)
    show ?thesis
    proof (cases "parse_tag cs")
      case Incomplete
      with True pt show ?thesis by simp
    next
      case (Parsed evs k)
      from 2(3) have "no_marked_section (drop k cs)" by (simp add: no_marked_section_drop)
      from 2(2) [OF _ Parsed this] True Parsed pt show ?thesis by (simp split: prod.splits)
    qed
  qed
qed

lemma html_scan_raising_agrees:
  "no_marked_section (rawdata @ data) \<Longrightarrow>
     html_scan_raising rawdata data = never_raising html_scan rawdata data"
  by (simp add: html_scan_raising_def never_raising_def html_scan_def goahead_raising_agrees)

lemma run_events_append:
  "run_events p (es1 @ es2) =
     (case run_events p es1 of Inl err \<Rightarrow> Inl err | Inr p' \<Rightarrow> run_events p' es2)"
  by (induction es1 arbitrary: p) (auto split: sum.splits)

lemma run_events_transparent:
  assumes "tag \<notin> set heading_tags" "tag \<notin> set preserve_tags"
  shows "tag \<noteq> ''br'' \<Longrightarrow>
           run_events q (es1 @ StartTag tag ats # es2) = run_events q (es1 @ es2)"
    and "run_events q (es1 @ EndTag tag # es2) = run_events q (es1 @ es2)"
  using assms
  by (simp_all add: run_events_append handle_starttag_def handle_endtag_def split: sum.splits)

lemma run_events_reset_total: "\<exists>p2. run_events (reset_fields p) evs = Inr p2"
proof -
  have "heading_open (reset_fields p)" by (simp add: heading_open_def reset_fields_def)
  from run_events_open [OF this, of evs] show ?thesis by blast
qed

lemma save_section_base:
  "sections (save_section (p\<lparr>base := b\<rparr>)) = sections (save_section p)"
  by (simp add: save_section_sections make_section_def)

lemma parse_content_raising_sections:
  assumes "s \<noteq> []" "py_strip s \<noteq> []" "rsc (base p) s = (evs, out)"
    and "run_events (reset_fields p) evs = Inr p2"
  shows "map_sum id fst (parse_content_raising rsc p s) =
           (case out of Inl err \<Rightarrow> Inl err | Inr b \<Rightarrow> Inr (sections (save_section p2)))"
proof (cases out)
  case (Inl err)
  with assms show ?thesis
    by (simp add: parse_content_raising_def feed_raising_def reset_fields_def)
next
  case (Inr b)
  have r: "rsc (base (reset_fields p)) s = (evs, Inr b)"
    using assms(3) Inr by (simp add: reset_fields_def)
  have f: "feed_raising rsc (reset_fields p) s = Inr (p2\<lparr>base := b\<rparr>)"
    using r assms(4) by (simp add: feed_raising_def)
  let ?q = "p2\<lparr>base := b\<rparr>"
  have "sections (if current_heading ?q \<noteq> None \<or> current_content ?q \<noteq> []
                  then save_section ?q else ?q) = sections (save_section ?q)"
    by (simp add: save_section_sections)
  then have "map_sum id fst (parse_content_raising rsc p s) = Inr (sections (save_section ?q))"
    using assms(1,2) f by (simp add: parse_content_raising_def Let_def)
  with Inr show ?thesis by (simp add: save_section_base)
qed

text \<open>
  C8, as stated, fails: on \<open><![foo]>\<close> the library's \<open>feed\<close> raises
  \<open>AssertionError\<close> (a marked section with an unknown keyword), \<open>parse_content\<close>
  calls it unguarded, and the exception leaves \<open>parse_content\<close>.
\<close>

theorem library_exception_propagates:
  "html_scan_raising [] ''<![foo]>'' = ([], Inl AssertionError) \<and>
   parse_content_raising html_scan_raising (init_parser []) ''<![foo]>'' = Inl AssertionError"
  by code_simp

text \<open>
  C8, amended. \<open>parse_content\<close> raises only where the library's \<open>feed\<close> raises. The
  handlers of the subclass never raise, whatever calls the library makes: from the reset
  state every sequence of handler calls runs to its end. So on a string that is not blank
  the result is the exception of the library if it raises, and otherwise the sections
  that the handler calls and the final \<open>_save_section\<close> build (the same sections that
  \<open>parse_content\<close> over a scanner that returns gives); on a blank string it is the empty
  sequence. A tag that is neither a heading nor a preserved tag (nor \<open>br\<close>,
  for the start tag) is transparent: the handler calls give the same with it and without
  it, at any place and in any state. Text is appended to the buffer that is active.
\<close>

theorem parse_raises_only_with_library:
  "(\<exists>p2. run_events (reset_fields p) evs = Inr p2 \<and>
      (s \<noteq> [] \<and> py_strip s \<noteq> [] \<and> rsc (base p) s = (evs, out) \<longrightarrow>
         map_sum id fst (parse_content_raising rsc p s) =
           (case out of Inl err \<Rightarrow> Inl err | Inr b \<Rightarrow> Inr (sections (save_section p2)))) \<and>
      (s \<noteq> [] \<and> py_strip s \<noteq> [] \<and> sc (base p) s = (evs, b0) \<longrightarrow>
         map_sum id fst (parse_content sc p s) = Inr (sections (save_section p2)))) \<and>
   (s = [] \<or> py_strip s = [] \<longrightarrow> parse_content_raising rsc p s = Inr ([], p)) \<and>
   (tag \<notin> set heading_tags \<and> tag \<notin> set preserve_tags \<longrightarrow>
      (tag \<noteq> ''br'' \<longrightarrow>
         run_events q (es1 @ StartTag tag ats # es2) = run_events q (es1 @ es2)) \<and>
      run_events q (es1 @ EndTag tag # es2) = run_events q (es1 @ es2)) \<and>
   (\<not> in_heading q \<longrightarrow>
      handle_data q d = Inr (q\<lparr>current_content := current_content q @ [d]\<rparr>)) \<and>
   (in_heading q \<longrightarrow> (\<forall>h. current_heading q = Some h \<longrightarrow>
      handle_data q d = Inr (q\<lparr>current_heading := Some (h @ d)\<rparr>)))"
proof -
  from run_events_reset_total [of p evs] obtain p2 where
    r: "run_events (reset_fields p) evs = Inr p2" ..
  have a: "s \<noteq> [] \<and> py_strip s \<noteq> [] \<and> rsc (base p) s = (evs, out) \<longrightarrow>
         map_sum id fst (parse_content_raising rsc p s) =
           (case out of Inl err \<Rightarrow> Inl err | Inr b \<Rightarrow> Inr (sections (save_section p2)))"
    using parse_content_raising_sections [of s rsc p evs out p2] r by blast
  have a': "s \<noteq> [] \<and> py_strip s \<noteq> [] \<and> sc (base p) s = (evs, b0) \<longrightarrow>
         map_sum id fst (parse_content sc p s) = Inr (sections (save_section p2))"
    using parse_content_raising_sections [of s "never_raising sc" p evs "Inr b0" p2] r
    by (simp add: parse_content_never_raising never_raising_def)
  have b: "s = [] \<or> py_strip s = [] \<longrightarrow> parse_content_raising rsc p s = Inr ([], p)"
    by (auto simp: parse_content_raising_def)
  have c: "tag \<notin> set heading_tags \<and> tag \<notin> set preserve_tags \<longrightarrow>
      (tag \<noteq> ''br'' \<longrightarrow>
         run_events q (es1 @ StartTag tag ats # es2) = run_events q (es1 @ es2)) \<and>
      run_events q (es1 @ EndTag tag # es2) = run_events q (es1 @ es2)"
    by (simp add: run_events_transparent)
  have d: "(\<not> in_heading q \<longrightarrow>
      handle_data q d = Inr (q\<lparr>current_content := current_content q @ [d]\<rparr>)) \<and>
   (in_heading q \<longrightarrow> (\<forall>h. current_heading q = Some h \<longrightarrow>
      handle_data q d = Inr (q\<lparr>current_heading := Some (h @ d)\<rparr>)))"
    by (simp add: handle_data_def)
  from r a a' b c d show ?thesis by blast
qed

theorem parse_raises_only_with_library_witness:
  "map_sum id fst (parse_content_raising html_scan_raising (init_parser [])
                     ''<div>x<span>y</span></div>'') =
     Inr [\<lparr>headingType = ''p'', section_text = [], description = ''xy''\<rparr>] \<and>
   map_sum id fst (parse_content html_scan (init_parser []) ''<div>x<span>y</span></div>'') =
     Inr [\<lparr>headingType = ''p'', section_text = [], description = ''xy''\<rparr>] \<and>
   map_sum id fst (parse_content_raising html_scan_raising (init_parser []) ''a<b>x<![foo]>y'') =
     Inl AssertionError \<and>
   parse_content_raising html_scan_raising (init_parser []) '' '' = Inr ([], init_parser []) \<and>
   ''div'' \<notin> set heading_tags \<and> ''div'' \<notin> set preserve_tags \<and> ''div'' \<noteq> ''br'' \<and>
   run_events (init_parser ([]::string)) ([Data ''x''] @ StartTag ''div'' [] # [Data ''y'']) =
     Inr ((init_parser [])\<lparr>current_content := [''x'', ''y'']\<rparr>) \<and>
   run_events (init_parser ([]::string)) ([Data ''x'', Data ''y''] @ EndTag ''div'' # []) =
     Inr ((init_parser [])\<lparr>current_content := [''x'', ''y'']\<rparr>) \<and>
   \<not> in_heading (init_parser ([]::string)) \<and>
   handle_data (init_parser ([]::string)) ''x'' =
     Inr ((init_parser [])\<lparr>current_content := [''x'']\<rparr>)"
proof -
  let ?p = "init_parser ([]::string)"
  let ?s1 = "''<div>x<span>y</span></div>''"
  let ?e1 = "[StartTag ''div'' [], Data ''x'', StartTag ''span'' [], Data ''y'',
              EndTag ''span'', EndTag ''div'']"
  let ?s2 = "''a<b>x<![foo]>y''"
  let ?e2 = "[Data ''a'', StartTag ''b'' [], Data ''x'']"
  have sc1: "?s1 \<noteq> [] \<and> py_strip ?s1 \<noteq> [] \<and> html_scan_raising (base ?p) ?s1 = (?e1, Inr [])"
    by code_simp
  have sc0: "html_scan (base ?p) ?s1 = (?e1, [])"
    by code_simp
  have sc2: "?s2 \<noteq> [] \<and> py_strip ?s2 \<noteq> [] \<and>
             html_scan_raising (base ?p) ?s2 = (?e2, Inl AssertionError)"
    by code_simp
  have r1: "run_events (reset_fields ?p) ?e1 = Inr (?p\<lparr>current_content := [''x'', ''y'']\<rparr>)"
    by code_simp
  have v1: "sections (save_section (?p\<lparr>current_content := [''x'', ''y'']\<rparr>)) =
              [\<lparr>headingType = ''p'', section_text = [], description = ''xy''\<rparr>]"
    by code_simp
  have bl: "py_strip '' '' = []" by code_simp
  have xy: "run_events ?p [Data ''x'', Data ''y''] = Inr (?p\<lparr>current_content := [''x'', ''y'']\<rparr>)"
    by code_simp
  have tg: "''div'' \<notin> set heading_tags \<and> ''div'' \<notin> set preserve_tags \<and> ''div'' \<noteq> ''br''"
    by (simp add: heading_tags_def preserve_tags_def)
  have ih: "\<not> in_heading ?p" by (simp add: init_parser_def)
  note t1 = parse_raises_only_with_library [where p = ?p and evs = ?e1 and s = ?s1
      and rsc = html_scan_raising and out = "Inr []" and sc = html_scan and ?b0.0 = "[]"
      and tag = "''div''" and q = ?p
      and ?es1.0 = "[Data ''x'']" and ats = "[]" and ?es2.0 = "[Data ''y'']" and d = "''x''"]
  note t2 = parse_raises_only_with_library [where p = ?p and evs = ?e2 and s = ?s2
      and rsc = html_scan_raising and out = "Inl AssertionError" and tag = "''div''" and q = ?p
      and ?es1.0 = "[Data ''x'', Data ''y'']" and ats = "[]" and ?es2.0 = "[]" and d = "''x''"]
  note t3 = parse_raises_only_with_library [where p = ?p and evs = "[]" and s = "'' ''"
      and rsc = html_scan_raising and out = "Inr []" and tag = "''div''" and q = ?p
      and ?es1.0 = "[]" and ats = "[]" and ?es2.0 = "[]" and d = "''x''"]
  have a: "map_sum id fst (parse_content_raising html_scan_raising ?p ?s1) =
     Inr [\<lparr>headingType = ''p'', section_text = [], description = ''xy''\<rparr>]"
    using t1 sc1 r1 v1 by auto
  have a0: "map_sum id fst (parse_content html_scan ?p ?s1) =
     Inr [\<lparr>headingType = ''p'', section_text = [], description = ''xy''\<rparr>]"
    using t1 sc1 sc0 r1 v1 by auto
  have b: "map_sum id fst (parse_content_raising html_scan_raising ?p ?s2) = Inl AssertionError"
    using t2 sc2 by auto
  have c: "parse_content_raising html_scan_raising ?p '' '' = Inr ([], ?p)"
    using t3 bl by blast
  have d: "run_events ?p ([Data ''x''] @ StartTag ''div'' [] # [Data ''y'']) =
             Inr (?p\<lparr>current_content := [''x'', ''y'']\<rparr>)"
    using t1 tg xy by simp
  have e: "run_events ?p ([Data ''x'', Data ''y''] @ EndTag ''div'' # []) =
             Inr (?p\<lparr>current_content := [''x'', ''y'']\<rparr>)"
    using t2 tg xy by simp
  have f: "handle_data ?p ''x'' = Inr (?p\<lparr>current_content := [''x'']\<rparr>)"
    using t1 ih by (simp add: init_parser_def)
  from a a0 b c tg d e ih f show ?thesis by blast
qed

subsection \<open>Blank input\<close>

text \<open>
  C9. On the empty string and on a string of whitespace only, \<open>parse_content\<close> returns
  the empty sequence (and leaves the instance untouched).
\<close>

theorem blank_input_no_sections:
  "\<forall>c \<in> set s. py_isspace c \<Longrightarrow> parse_content sc p s = Inr ([], p)"
  by (simp add: parse_content_def py_strip_blank)

theorem blank_input_no_sections_witness:
  "py_isspace sp \<and> py_isspace nl \<and> py_isspace (CHR 0x09) \<and>
   parse_content html_scan (init_parser []) [sp, nl, CHR 0x09] = Inr ([], init_parser [])"
  using blank_input_no_sections [of "[sp, nl, CHR 0x09]" html_scan "init_parser []"]
  by (simp add: py_isspace_def nl_def sp_def)

subsection \<open>Preserved inline tags\<close>

lemma hello_world_sections:
  "map_sum id fst (parse_content html_scan (init_parser []) ''<p>Hello <b>world</b>!</p>'') =
     Inr [\<lparr>headingType = ''p'', section_text = [], description = ''Hello <b>world</b>!''\<rparr>]"
  by code_simp

text \<open>
  C7. For a preserved inline tag, whatever the state: the start tag is appended to the
  content fragments as \<open><tag>\<close>, or as \<open><tag k="v" ...>\<close> with the attributes in
  their order joined by one space, and the name is pushed on the stack; the end tag
  appends \<open></tag>\<close> and pops the stack exactly when the stack is not empty and its top
  is that name, and otherwise changes nothing. The markup \<open><p>Hello <b>world</b>!</p>\<close>
  gives the one section \<open>p\<close>, empty heading, \<open>Hello <b>world</b>!\<close>.
\<close>

theorem preserved_tags_kept:
  "(tag \<in> set preserve_tags \<longrightarrow>
      handle_starttag p tag ats =
        p\<lparr>current_content := current_content p @
             [if ats = [] then ''<'' @ tag @ ''>''
              else ''<'' @ tag @ '' '' @
                   py_join '' '' (map (\<lambda>(k, v). k @ [CHR ''='', CHR 0x22] @ py_str v @ [CHR 0x22]) ats) @
                   ''>''],
           tag_stack := tag_stack p @ [tag]\<rparr> \<and>
      handle_endtag p tag =
        (if tag_stack p \<noteq> [] \<and> last (tag_stack p) = tag
         then p\<lparr>current_content := current_content p @ [''</'' @ tag @ ''>''],
                tag_stack := butlast (tag_stack p)\<rparr>
         else p)) \<and>
   map_sum id fst (parse_content html_scan (init_parser []) ''<p>Hello <b>world</b>!</p>'') =
     Inr [\<lparr>headingType = ''p'', section_text = [], description = ''Hello <b>world</b>!''\<rparr>]"
proof -
  have r: "render_attr = (\<lambda>(k, v). k @ [CHR ''='', CHR 0x22] @ py_str v @ [CHR 0x22])"
    by (auto simp: render_attr_def fun_eq_iff)
  have "tag \<in> set preserve_tags \<Longrightarrow>
      handle_starttag p tag ats =
        p\<lparr>current_content := current_content p @
             [if ats = [] then ''<'' @ tag @ ''>''
              else ''<'' @ tag @ '' '' @ py_join '' '' (map render_attr ats) @ ''>''],
           tag_stack := tag_stack p @ [tag]\<rparr>"
    using attrs_str_empty_iff [of "'' ''" ats]
    by (simp add: handle_starttag_def preserve_not_heading Let_def)
  moreover have "tag \<in> set preserve_tags \<Longrightarrow>
      handle_endtag p tag =
        (if tag_stack p \<noteq> [] \<and> last (tag_stack p) = tag
         then p\<lparr>current_content := current_content p @ [''</'' @ tag @ ''>''],
                tag_stack := butlast (tag_stack p)\<rparr>
         else p)"
    by (simp add: handle_endtag_def preserve_not_heading)
  ultimately show ?thesis
    using hello_world_sections unfolding r by blast
qed

theorem preserved_tags_kept_witness:
  "''b'' \<in> set preserve_tags \<and>
   handle_starttag (init_parser ([]::string)) ''b'' [(''class'', Some ''x''), (''id'', Some ''y'')] =
     (init_parser [])\<lparr>current_content := [''<b class='' @ [CHR 0x22] @ ''x'' @ [CHR 0x22] @
                                           '' id='' @ [CHR 0x22] @ ''y'' @ [CHR 0x22] @ ''>''],
                      tag_stack := [''b'']\<rparr> \<and>
   handle_endtag ((init_parser ([]::string))\<lparr>tag_stack := [''i'', ''b'']\<rparr>) ''b'' =
     (init_parser [])\<lparr>current_content := [''</b>''], tag_stack := [''i'']\<rparr> \<and>
   handle_endtag ((init_parser ([]::string))\<lparr>tag_stack := [''b'', ''i'']\<rparr>) ''b'' =
     (init_parser [])\<lparr>tag_stack := [''b'', ''i'']\<rparr> \<and>
   handle_endtag (init_parser ([]::string)) ''b'' = init_parser []"
  using preserved_tags_kept [of "''b''" "init_parser ([]::string)"
          "[(''class'', Some ''x''), (''id'', Some ''y'')]"]
    preserved_tags_kept [of "''b''" "(init_parser ([]::string))\<lparr>tag_stack := [''i'', ''b'']\<rparr>" "[]"]
    preserved_tags_kept [of "''b''" "(init_parser ([]::string))\<lparr>tag_stack := [''b'', ''i'']\<rparr>" "[]"]
    preserved_tags_kept [of "''b''" "init_parser ([]::string)" "[]"]
  by (simp add: preserve_tags_def init_parser_def)

lemma a_download_sections:
  "map_sum id fst (parse_content html_scan (init_parser []) ''<a download>'') =
     Inr [\<lparr>headingType = ''p'', section_text = [],
           description = ''<a download='' @ [CHR 0x22] @ ''None'' @ [CHR 0x22] @ ''>''\<rparr>]"
  by code_simp

text \<open>
  C10. An attribute without a value reaches \<open>handle_starttag\<close> with the value
  \<open>None\<close>, and a preserved start tag renders it as \<open>name="None"\<close>, wherever it stands
  among the attributes; \<open><a download>\<close> is serialized as \<open><a download="None">\<close>.
\<close>

theorem valueless_attribute_None:
  "(tag \<in> set preserve_tags \<longrightarrow>
      current_content (handle_starttag p tag (pre @ (name, None) # post)) =
        current_content p @
          [''<'' @ tag @ '' '' @
           py_join '' '' (map render_attr pre @
                          [name @ ''='' @ [CHR 0x22] @ ''None'' @ [CHR 0x22]] @
                          map render_attr post) @ ''>'']) \<and>
   map_sum id fst (parse_content html_scan (init_parser []) ''<a download>'') =
     Inr [\<lparr>headingType = ''p'', section_text = [],
           description = ''<a download='' @ [CHR 0x22] @ ''None'' @ [CHR 0x22] @ ''>''\<rparr>]"
proof -
  have "render_attr (name, None) = name @ ''='' @ [CHR 0x22] @ ''None'' @ [CHR 0x22]"
    by (simp add: render_attr_def)
  moreover have "py_join '' '' (map render_attr (pre @ (name, None) # post)) \<noteq> []"
    using attrs_str_empty_iff [of "'' ''" "pre @ (name, None) # post"] by simp
  ultimately have "tag \<in> set preserve_tags \<Longrightarrow>
      current_content (handle_starttag p tag (pre @ (name, None) # post)) =
        current_content p @
          [''<'' @ tag @ '' '' @
           py_join '' '' (map render_attr pre @
                          [name @ ''='' @ [CHR 0x22] @ ''None'' @ [CHR 0x22]] @
                          map render_attr post) @ ''>'']"
    by (simp add: handle_starttag_def preserve_not_heading Let_def)
  then show ?thesis using a_download_sections by blast
qed

theorem valueless_attribute_None_witness:
  "''a'' \<in> set preserve_tags \<and>
   current_content (handle_starttag (init_parser ([]::string)) ''a''
                      [(''href'', Some ''u''), (''download'', None)]) =
     [''<a href='' @ [CHR 0x22] @ ''u'' @ [CHR 0x22] @
      '' download='' @ [CHR 0x22] @ ''None'' @ [CHR 0x22] @ ''>'']"
  using valueless_attribute_None [of "''a''" "init_parser ([]::string)" "[(''href'', Some ''u'')]"
          "''download''" "[]"]
  by (simp add: preserve_tags_def init_parser_def render_attr_def)

subsection \<open>When a section is emitted\<close>

text \<open>
  C2, as stated, fails: the heading \<open><h1> </h1>\<close> holds one space, its trimmed text is
  empty and no content follows, yet a record is emitted.
\<close>

theorem whitespace_heading_emitted:
  "fst (html_scan [] ''<h1> </h1>'') = [StartTag ''h1'' [], Data '' '', EndTag ''h1''] \<and>
   py_strip '' '' = [] \<and>
   map_sum id fst (parse_content html_scan (init_parser []) ''<h1> </h1>'') =
     Inr [\<lparr>headingType = ''h1'', section_text = [], description = []\<rparr>]"
  by code_simp

lemma parse_content_sections:
  assumes "s \<noteq> []" "py_strip s \<noteq> []" "feed sc (reset_fields p) s = Inr p2"
  shows "parse_content sc p s = Inr (sections (save_section p2),
           if current_heading p2 \<noteq> None \<or> current_content p2 \<noteq> [] then save_section p2 else p2)"
proof (cases "current_heading p2 \<noteq> None \<or> current_content p2 \<noteq> []")
  case True
  with assms show ?thesis by (simp add: parse_content_def Let_def)
next
  case False
  then have "sections (save_section p2) = sections p2"
    by (simp add: save_section_sections)
  with False assms show ?thesis by (simp add: parse_content_def Let_def)
qed

text \<open>
  C2, amended. \<open>_save_section\<close> appends exactly one record when the heading text as
  accumulated, before trimming, is not empty or there is at least one content fragment,
  and appends nothing otherwise (no heading, or an empty one, and no fragment). This is
  what happens at a heading start tag behind an earlier heading, and what
  \<open>parse_content\<close> returns once the pass has ended.
\<close>

theorem section_emitted_iff:
  "sections (save_section p) =
     sections p @
       (if (current_heading p \<noteq> None \<and> current_heading p \<noteq> Some []) \<or> current_content p \<noteq> []
        then [make_section p] else []) \<and>
   (tag \<in> set heading_tags \<and> current_heading p \<noteq> None \<longrightarrow>
      sections (handle_starttag p tag ats) = sections (save_section p)) \<and>
   (s \<noteq> [] \<and> py_strip s \<noteq> [] \<and> feed sc (reset_fields q) s = Inr p2 \<longrightarrow>
      map_sum id fst (parse_content sc q s) = Inr (sections (save_section p2)))"
proof -
  have t: "truthy (current_heading p) \<longleftrightarrow>
           current_heading p \<noteq> None \<and> current_heading p \<noteq> Some []"
    by (cases "current_heading p") auto
  have a: "sections (save_section p) =
     sections p @
       (if (current_heading p \<noteq> None \<and> current_heading p \<noteq> Some []) \<or> current_content p \<noteq> []
        then [make_section p] else [])"
    unfolding save_section_sections t by simp
  have b: "tag \<in> set heading_tags \<and> current_heading p \<noteq> None \<longrightarrow>
      sections (handle_starttag p tag ats) = sections (save_section p)"
    by (simp add: handle_starttag_def Let_def)
  have c: "s \<noteq> [] \<and> py_strip s \<noteq> [] \<and> feed sc (reset_fields q) s = Inr p2 \<longrightarrow>
      map_sum id fst (parse_content sc q s) = Inr (sections (save_section p2))"
    using parse_content_sections [of s sc q p2] by simp
  from a b c show ?thesis by blast
qed

theorem section_emitted_iff_witness:
  "sections (save_section ((init_parser ([]::string))\<lparr>current_heading := Some [],
                             current_heading_type := Some ''h2''\<rparr>)) = [] \<and>
   sections (save_section ((init_parser ([]::string))\<lparr>current_heading := Some '' '',
                             current_heading_type := Some ''h2''\<rparr>)) =
     [\<lparr>headingType = ''h2'', section_text = [], description = []\<rparr>] \<and>
   ''h3'' \<in> set heading_tags \<and>
   sections (handle_starttag ((init_parser ([]::string))\<lparr>current_heading := Some [],
                                current_heading_type := Some ''h2''\<rparr>) ''h3'' []) = [] \<and>
   feed html_scan (reset_fields (init_parser [])) ''<h1></h1>'' =
     Inr ((init_parser [])\<lparr>current_heading := Some [], current_heading_type := Some ''h1''\<rparr>) \<and>
   map_sum id fst (parse_content html_scan (init_parser []) ''<h1></h1>'') = Inr []"
proof -
  let ?p = "(init_parser ([]::string))\<lparr>current_heading := Some [],
               current_heading_type := Some ''h2''\<rparr>"
  let ?q = "(init_parser ([]::string))\<lparr>current_heading := Some '' '',
               current_heading_type := Some ''h2''\<rparr>"
  let ?r = "(init_parser ([]::string))\<lparr>current_heading := Some [],
               current_heading_type := Some ''h1''\<rparr>"
  have f: "feed html_scan (reset_fields (init_parser [])) ''<h1></h1>'' = Inr ?r"
    by code_simp
  have n: "''<h1></h1>'' \<noteq> [] \<and> py_strip ''<h1></h1>'' \<noteq> []"
    by code_simp
  have m: "make_section ?q = \<lparr>headingType = ''h2'', section_text = [], description = []\<rparr>"
    by code_simp
  have h: "''h3'' \<in> set heading_tags" by (simp add: heading_tags_def)
  from section_emitted_iff [of ?p "''h3''" "[]" "''<h1></h1>''" html_scan "init_parser []" ?r]
    section_emitted_iff [of ?q "''h3''" "[]" "''<h1></h1>''" html_scan "init_parser []" ?r]
    section_emitted_iff [of ?r "''h3''" "[]" "''<h1></h1>''" html_scan "init_parser []" ?r]
    f n m h
  show ?thesis by (simp add: init_parser_def)
qed

subsection \<open>Content before the first heading\<close>

text \<open>
  A heading start tag finalizes the section in progress only when a heading is already
  open; with none, what has been accumulated stays in the buffer.
\<close>

lemma first_heading_keeps_content:
  assumes "tag \<in> set heading_tags" "current_heading p = None"
  shows "sections (handle_starttag p tag ats) = sections p"
    and "current_content (handle_starttag p tag ats) = current_content p"
  using assms by (simp_all add: handle_starttag_def Let_def)

text \<open>
  C1 at \<open>intro<h1>A</h1>body\<close>: the text before the first heading is not returned as a
  section of its own, it is the start of the description of the section \<open>A\<close>.
\<close>

theorem preheading_content_merged:
  "map_sum id fst (parse_content html_scan (init_parser []) ''intro<h1>A</h1>body'') =
     Inr [\<lparr>headingType = ''h1'', section_text = ''A'', description = ''introbody''\<rparr>]"
  by code_simp

theorem preheading_content_merged_witness:
  "map_sum id fst (parse_content html_scan (init_parser []) ''intro<h1>A</h1>body'') \<noteq>
     Inr [\<lparr>headingType = ''p'', section_text = [], description = ''intro''\<rparr>,
          \<lparr>headingType = ''h1'', section_text = ''A'', description = ''body''\<rparr>]"
  using preheading_content_merged by simp

subsection \<open>Reuse of one instance\<close>

text \<open>
  \<open>parse_content\<close> resets every field of the subclass, so of the state of the instance
  only the inherited one can reach its result.
\<close>

lemma parse_depends_on_inherited_state:
  "map_sum id fst (parse_content sc p s) =
   map_sum id fst (parse_content sc (init_parser (base p)) s)"
proof -
  have "reset_fields p = reset_fields (init_parser (base p))"
    by (simp add: reset_fields_def init_parser_def)
  then show ?thesis by (simp add: parse_content_def)
qed

text \<open>
  C3 at \<open>parse("<b")\<close> followed by \<open>parse(">x")\<close>: the first call returns no section
  and leaves the unfinished tag in the inherited buffer; the second call then sees
  \<open><b>x\<close>, where a fresh instance sees \<open>>x\<close>.
\<close>

theorem reused_parser_leaks_buffer:
  "parse_content html_scan (init_parser []) ''<b'' = Inr ([], (init_parser [])\<lparr>base := ''<b''\<rparr>) \<and>
   map_sum id fst (parse_content html_scan ((init_parser [])\<lparr>base := ''<b''\<rparr>) ''>x'') =
     Inr [\<lparr>headingType = ''p'', section_text = [], description = ''<b>x''\<rparr>] \<and>
   map_sum id fst (parse_content html_scan (init_parser []) ''>x'') =
     Inr [\<lparr>headingType = ''p'', section_text = [], description = ''>x''\<rparr>]"
  by code_simp

theorem reused_parser_leaks_buffer_witness:
  "(case parse_content html_scan (init_parser []) ''<b'' of
      Inl err \<Rightarrow> Inl err
    | Inr (secs, p1) \<Rightarrow> map_sum id fst (parse_content html_scan p1 ''>x'')) \<noteq>
   map_sum id fst (parse_content html_scan (init_parser []) ''>x'')"
  using reused_parser_leaks_buffer by simp

subsection \<open>Whitespace in a description\<close>

lemma py_join_empty_sep: "py_join [] parts = concat parts"
  by (induction "[]::string" parts rule: py_join.induct) simp_all

text \<open>
  A substitution works on a prefix on its own when no match that starts in the prefix
  looks or reaches beyond it.
\<close>

lemma re_sub_suffix:
  assumes loc: "\<And>pre t. u = pre @ t \<Longrightarrow> t \<noteq> [] \<Longrightarrow> m (t @ s) = m t"
    and bnd: "\<And>pre t k. u = pre @ t \<Longrightarrow> m t = Some k \<Longrightarrow> k \<le> length t"
  shows "u = pre @ t \<Longrightarrow> re_sub m r (t @ s) = re_sub m r t @ re_sub m r s"
proof (induction t arbitrary: pre rule: length_induct)
  case (1 t)
  show ?case
  proof (cases t)
    case Nil
    then show ?thesis by simp
  next
    case (Cons c cs)
    have same: "m (c # cs @ s) = m (c # cs)"
      using loc [of pre t] 1(2) Cons by simp
    have tail: "re_sub m r (cs @ s) = re_sub m r cs @ re_sub m r s"
    proof -
      have "u = (pre @ [c]) @ cs" using 1(2) Cons by simp
      moreover have "length cs < length t" using Cons by simp
      ultimately show ?thesis using 1(1) by blast
    qed
    show ?thesis
    proof (cases "m (c # cs)")
      case None
      with same tail Cons show ?thesis by simp
    next
      case (Some k)
      show ?thesis
      proof (cases k)
        case 0
        with Some same tail Cons show ?thesis by simp
      next
        case (Suc j)
        have "Suc j \<le> length (c # cs)"
          using bnd [of pre t k] 1(2) Cons Some Suc by simp
        then have j: "j \<le> length cs" by simp
        have "u = (pre @ c # take j cs) @ drop j cs" using 1(2) Cons by simp
        moreover have "length (drop j cs) < length t" using Cons by simp
        ultimately have "re_sub m r (drop j cs @ s) = re_sub m r (drop j cs) @ re_sub m r s"
          using 1(1) by blast
        with j Some Suc same Cons show ?thesis by simp
      qed
    qed
  qed
qed

lemma re_sub_append:
  assumes "\<And>pre t. u = pre @ t \<Longrightarrow> t \<noteq> [] \<Longrightarrow> m (t @ s) = m t"
    and "\<And>pre t k. u = pre @ t \<Longrightarrow> m t = Some k \<Longrightarrow> k \<le> length t"
  shows "re_sub m r (u @ s) = re_sub m r u @ re_sub m r s"
  using re_sub_suffix [of u m s "[]" u r] assms by simp

lemma ends_without_suffix:
  assumes "ends_without P u" "u = pre @ t" "t \<noteq> []"
  shows "\<not> P (last t)"
proof -
  from assms(3) obtain ys y where t: "t = ys @ [y]" by (metis rev_exhaust)
  with assms(1,2) show ?thesis by (simp add: ends_without_def)
qed

lemma takeWhile_append_stop:
  assumes "cs \<noteq> []" "\<not> P (last cs)"
  shows "takeWhile P (cs @ s) = takeWhile P cs"
  using assms by (intro takeWhile_append1 [of "last cs"]) auto

lemma match_blank_lines_local:
  assumes "ends_without py_isspace u" "u = pre @ t" "t \<noteq> []"
  shows "match_blank_lines (t @ s) = match_blank_lines t"
proof (cases t)
  case Nil
  with assms show ?thesis by simp
next
  case (Cons c cs)
  have last: "\<not> py_isspace (last t)" using ends_without_suffix [OF assms] .
  show ?thesis
  proof (cases "c = nl")
    case False
    with Cons show ?thesis by (simp add: match_blank_lines_def)
  next
    case True
    then have "py_isspace c" by (simp add: py_isspace_def nl_def)
    with last Cons have "cs \<noteq> []" and "\<not> py_isspace (last cs)"
      by (auto split: if_splits)
    then have "takeWhile py_isspace (cs @ s) = takeWhile py_isspace cs"
      by (rule takeWhile_append_stop)
    with Cons show ?thesis by (simp add: match_blank_lines_def)
  qed
qed

lemma match_blank_lines_bound: "match_blank_lines t = Some k \<Longrightarrow> k \<le> length t"
proof -
  assume a: "match_blank_lines t = Some k"
  then obtain c cs where t: "t = c # cs" by (cases t) (auto simp: match_blank_lines_def)
  have "length (dropWhile (\<lambda>x. x \<noteq> nl) (rev (takeWhile py_isspace cs)))
          \<le> length (rev (takeWhile py_isspace cs))"
    by (rule length_dropWhile_le)
  moreover have "length (takeWhile py_isspace cs) \<le> length cs"
    by (rule length_takeWhile_le)
  ultimately show ?thesis
    using a t by (auto simp: match_blank_lines_def Let_def split: if_splits)
qed

lemma sub_blank_lines_append:
  "ends_without py_isspace u \<Longrightarrow>
     sub_blank_lines (u @ s) = sub_blank_lines u @ sub_blank_lines s"
  unfolding sub_blank_lines_def
  by (rule re_sub_append) (auto intro: match_blank_lines_local match_blank_lines_bound)

lemma sub_blank_lines_no_newline:
  "\<forall>c \<in> set a. c \<noteq> nl \<Longrightarrow> sub_blank_lines (a @ s) = a @ sub_blank_lines s"
  by (induction a) (auto simp: sub_blank_lines_def match_blank_lines_def)

lemma takeWhile_run:
  assumes "\<forall>c \<in> set w. P c" "starts_without P v"
  shows "takeWhile P (w @ v) = w"
proof -
  have "takeWhile P v = []" using assms(2) by (cases v) (auto simp: starts_without_def)
  with assms(1) show ?thesis by (simp add: takeWhile_append2)
qed

lemma match_blank_lines_run:
  assumes m: "\<forall>c \<in> set m. py_isspace c"
    and b: "\<forall>c \<in> set b. py_isspace c \<and> c \<noteq> nl"
    and v: "starts_without py_isspace v"
  shows "match_blank_lines (nl # m @ nl # b @ v) = Some (Suc (Suc (length m)))"
proof -
  have "py_isspace nl" by (simp add: py_isspace_def nl_def)
  with m b have "\<forall>c \<in> set (m @ nl # b). py_isspace c" by auto
  from takeWhile_run [OF this v]
  have run: "takeWhile py_isspace (m @ nl # b @ v) = m @ nl # b" by simp
  have "dropWhile (\<lambda>x. x \<noteq> nl) (rev b @ nl # rev m) =
        dropWhile (\<lambda>x. x \<noteq> nl) (nl # rev m)"
    by (rule dropWhile_append2) (use b in auto)
  then show ?thesis by (simp add: match_blank_lines_def run)
qed

lemma sub_blank_lines_run:
  assumes a: "\<forall>c \<in> set a. py_isspace c \<and> c \<noteq> nl"
    and m: "\<forall>c \<in> set m. py_isspace c"
    and b: "\<forall>c \<in> set b. py_isspace c \<and> c \<noteq> nl"
    and u: "ends_without py_isspace u"
    and v: "starts_without py_isspace v"
  shows "sub_blank_lines (u @ a @ nl # m @ nl # b @ v) =
         sub_blank_lines u @ a @ [nl, nl] @ b @ sub_blank_lines v"
proof -
  have "sub_blank_lines (nl # m @ nl # b @ v) = [nl, nl] @ sub_blank_lines (b @ v)"
    using match_blank_lines_run [OF m b v] by (simp add: sub_blank_lines_def)
  also have "sub_blank_lines (b @ v) = b @ sub_blank_lines v"
    using b by (simp add: sub_blank_lines_no_newline)
  finally have mid: "sub_blank_lines (nl # m @ nl # b @ v) = [nl, nl] @ b @ sub_blank_lines v" .
  have "sub_blank_lines (u @ a @ nl # m @ nl # b @ v) =
        sub_blank_lines u @ sub_blank_lines (a @ nl # m @ nl # b @ v)"
    using u by (rule sub_blank_lines_append)
  also have "sub_blank_lines (a @ nl # m @ nl # b @ v) = a @ sub_blank_lines (nl # m @ nl # b @ v)"
    using a by (simp add: sub_blank_lines_no_newline)
  finally show ?thesis using mid by simp
qed

lemma match_spaces_local:
  assumes "ends_without (\<lambda>c. c = sp) u" "u = pre @ t" "t \<noteq> []"
  shows "match_spaces (t @ s) = match_spaces t"
proof -
  have "\<not> last t = sp" using ends_without_suffix [OF assms] .
  with assms(3) have "takeWhile (\<lambda>x. x = sp) (t @ s) = takeWhile (\<lambda>x. x = sp) t"
    by (intro takeWhile_append_stop) auto
  then show ?thesis by (simp add: match_spaces_def)
qed

lemma match_spaces_bound: "match_spaces t = Some k \<Longrightarrow> k \<le> length t"
  using length_takeWhile_le [of "\<lambda>x. x = sp" t]
  by (auto simp: match_spaces_def Let_def split: if_splits)

lemma sub_spaces_append:
  "ends_without (\<lambda>c. c = sp) u \<Longrightarrow> sub_spaces (u @ s) = sub_spaces u @ sub_spaces s"
  unfolding sub_spaces_def
  by (rule re_sub_append) (auto intro: match_spaces_local match_spaces_bound)

lemma sub_spaces_replicate:
  assumes "starts_without (\<lambda>c. c = sp) v"
  shows "sub_spaces (replicate (Suc n) sp @ v) = sp # sub_spaces v"
proof -
  have "takeWhile (\<lambda>x. x = sp) (replicate n sp @ v) = replicate n sp"
    by (rule takeWhile_run [OF _ assms]) simp
  then have "match_spaces (replicate (Suc n) sp @ v) = Some (Suc n)"
    by (simp add: match_spaces_def)
  then show ?thesis by (simp add: sub_spaces_def)
qed

lemma sub_spaces_run:
  assumes "ends_without (\<lambda>c. c = sp) u" "starts_without (\<lambda>c. c = sp) v"
  shows "sub_spaces (u @ replicate (Suc n) sp @ v) = sub_spaces u @ [sp] @ sub_spaces v"
  using sub_spaces_append [OF assms(1)] sub_spaces_replicate [OF assms(2)] by simp

lemma ends_without_rev_dropWhile: "ends_without P (rev (dropWhile P xs))"
proof (cases "dropWhile P xs")
  case Nil
  show ?thesis unfolding ends_without_def rev_rev_ident Nil by simp
next
  case (Cons c cs)
  then have "dropWhile P xs \<noteq> []" by simp
  then have "\<not> P (hd (dropWhile P xs))" by (rule hd_dropWhile)
  then have "\<not> P c" unfolding Cons by simp
  then show ?thesis unfolding ends_without_def rev_rev_ident Cons by simp
qed

lemma starts_without_dropWhile: "starts_without P (dropWhile P xs)"
proof (cases "dropWhile P xs")
  case Nil
  show ?thesis unfolding starts_without_def Nil by simp
next
  case (Cons c cs)
  then have "dropWhile P xs \<noteq> []" by simp
  then have "\<not> P (hd (dropWhile P xs))" by (rule hd_dropWhile)
  then have "\<not> P c" unfolding Cons by simp
  then show ?thesis unfolding starts_without_def Cons by simp
qed

lemma ends_without_Cons: "xs \<noteq> [] \<Longrightarrow> ends_without P (x # xs) = ends_without P xs"
  by (cases xs rule: rev_cases) (auto simp: ends_without_def)

lemma dropWhile_keeps_end:
  assumes "ends_without P xs"
  shows "ends_without P (dropWhile P xs)"
  using assms
proof (induction xs)
  case Nil
  then show ?case by simp
next
  case (Cons x xs)
  show ?case
  proof (cases "P x")
    case False
    with Cons.prems show ?thesis by simp
  next
    case True
    with Cons.prems have "xs \<noteq> []" by (auto simp: ends_without_def)
    with Cons.prems have "ends_without P xs" by (simp add: ends_without_Cons)
    with Cons.IH True show ?thesis by simp
  qed
qed

lemma starts_without_rev: "starts_without P (rev xs) = ends_without P xs"
  by (simp add: starts_without_def ends_without_def)

lemma py_strip_trimmed:
  "starts_without py_isspace (py_strip t) \<and> ends_without py_isspace (py_strip t)"
proof -
  have "ends_without py_isspace (rev (dropWhile py_isspace t))"
    using starts_without_dropWhile [of py_isspace t]
    by (simp add: starts_without_def ends_without_def)
  then have "ends_without py_isspace (dropWhile py_isspace (rev (dropWhile py_isspace t)))"
    by (rule dropWhile_keeps_end)
  then have "starts_without py_isspace (py_strip t)"
    unfolding py_strip_def by (simp only: starts_without_rev)
  moreover have "ends_without py_isspace (py_strip t)"
    unfolding py_strip_def by (rule ends_without_rev_dropWhile)
  ultimately show ?thesis ..
qed

text \<open>
  C5, as stated, fails: between \<open>a\<close> and \<open>b\<close> of \<open>a \<newline> \<newline> b\<close> stands one run
  of whitespace with two newlines, and the description keeps the space before the first
  and the space behind the last newline; the run does not become exactly two newlines.
\<close>

theorem run_not_fully_collapsed:
  "normalize_description [''a \<newline> \<newline> b''] = ''a \<newline>\<newline> b'' \<and>
   normalize_description [''a \<newline> \<newline> b''] \<noteq> ''a\<newline>\<newline>b''"
  by code_simp

lemma normalize_examples:
  "normalize_description [''a\<newline>\<newline>\<newline>\<newline>b''] = ''a\<newline>\<newline>b''"
  "normalize_description [''a   b''] = ''a b''"
  by code_simp+

text \<open>
  C5, amended. In a maximal run of whitespace with two or more newlines (\<open>a\<close>, newline,
  \<open>m\<close>, newline, \<open>b\<close>, with no newline in \<open>a\<close> and \<open>b\<close>) the stretch from the first
  to the last newline becomes exactly two newlines, and the whitespace of the run before
  and behind that stretch stays; a maximal run of one or more spaces becomes one space;
  the description is the content joined, trimmed, put through these two passes in this
  order and trimmed again, so it neither starts nor ends in whitespace. Four newlines
  between \<open>a\<close> and \<open>b\<close> give two, three spaces give one.
\<close>

theorem description_normalized:
  "((\<forall>c \<in> set a. py_isspace c \<and> c \<noteq> nl) \<and> (\<forall>c \<in> set m. py_isspace c) \<and>
    (\<forall>c \<in> set b. py_isspace c \<and> c \<noteq> nl) \<and>
    ends_without py_isspace u \<and> starts_without py_isspace v \<longrightarrow>
      sub_blank_lines (u @ a @ nl # m @ nl # b @ v) =
        sub_blank_lines u @ a @ [nl, nl] @ b @ sub_blank_lines v) \<and>
   (ends_without (\<lambda>c. c = sp) x \<and> starts_without (\<lambda>c. c = sp) y \<longrightarrow>
      sub_spaces (x @ replicate (Suc n) sp @ y) = sub_spaces x @ [sp] @ sub_spaces y) \<and>
   description (make_section p) =
     py_strip (sub_spaces (sub_blank_lines (py_strip (concat (current_content p))))) \<and>
   starts_without py_isspace (description (make_section p)) \<and>
   ends_without py_isspace (description (make_section p)) \<and>
   normalize_description [''a\<newline>\<newline>\<newline>\<newline>b''] = ''a\<newline>\<newline>b'' \<and>
   normalize_description [''a   b''] = ''a b''"
proof -
  have d: "description (make_section p) =
     py_strip (sub_spaces (sub_blank_lines (py_strip (concat (current_content p)))))"
    by (simp add: make_section_def normalize_description_def py_join_empty_sep)
  show ?thesis
    unfolding d
    using sub_blank_lines_run [of a m b u v] sub_spaces_run [of x y n]
      py_strip_trimmed normalize_examples
    by blast
qed

theorem description_normalized_witness:
  "sub_blank_lines (''a '' @ [nl] @ '' '' @ [nl] @ ''  b'') = ''a '' @ [nl, nl] @ ''  b'' \<and>
   sub_spaces (''a'' @ replicate 3 sp @ ''b'') = ''a b''"
proof -
  have 1: "(\<forall>c \<in> set '' ''. py_isspace c \<and> c \<noteq> nl) \<and> (\<forall>c \<in> set '' ''. py_isspace c) \<and>
    (\<forall>c \<in> set ''  ''. py_isspace c \<and> c \<noteq> nl) \<and>
    ends_without py_isspace ''a'' \<and> starts_without py_isspace ''b''"
    by (simp add: py_isspace_def nl_def ends_without_def starts_without_def)
  have 2: "ends_without (\<lambda>c. c = sp) ''a'' \<and> starts_without (\<lambda>c. c = sp) ''b''"
    by (simp add: sp_def ends_without_def starts_without_def)
  have 3: "sub_blank_lines ''a'' = ''a''" "sub_blank_lines ''b'' = ''b''"
    "sub_spaces ''a'' = ''a''" "sub_spaces ''b'' = ''b''"
    by code_simp+
  from description_normalized [of "'' ''" "'' ''" "''  ''" "''a''" "''b''" "''a''" "''b''" 2
         "init_parser ()"] 1 2 3
  show ?thesis by (simp add: sp_def numeral_3_eq_3)
qed

subsection \<open>The rewrite of the tree\<close>

lemma dict_set_fresh: "key \<notin> fst ` set d \<Longrightarrow> dict_set d key v = d @ [(key, v)]"
  by (induction d key v rule: dict_set.induct) auto






lemma transform_total:
  fixes sc :: "'l scanner" and d :: "'f json"
    and kvs acc :: "(string \<times> 'f json) list" and xs :: "'f json list"
  shows "\<exists>r. transform_content_fields sc d p = Inr r"
    and "\<exists>r. transform_items sc kvs acc p1 = Inr r"
    and "\<exists>r. transform_list sc xs p2 = Inr r"
proof (induction sc d p and sc kvs acc p1 and sc xs p2
    rule: transform_content_fields_transform_items_transform_list.induct)
  case (9 sc key "value" rest new_obj p)
  show ?case
  proof (cases "if key = ''content'' then as_str value else None")
    case None
    from 9(1) [OF None] obtain v q where v: "transform_content_fields sc value p = Inr (v, q)"
      by fastforce
    with None 9(2) [of "(v, q)" v q] show ?thesis by simp
  next
    case (Some s)
    from parse_content_total [of sc p s] obtain secs q where
      pc: "parse_content sc p s = Inr (secs, q)" by blast
    with Some 9(2) [of "(JArray (map section_json secs), q)" "JArray (map section_json secs)" q]
    show ?thesis by simp
  qed
next
  case (11 sc x xs p)
  from 11(1) obtain y q where y: "transform_content_fields sc x p = Inr (y, q)" by fastforce
  from 11(2) [OF y] obtain ys q' where "transform_list sc xs q = Inr (ys, q')" by fastforce
  with y show ?case by simp
qed (auto split: sum.splits)





lemma is_sections_map: "is_sections (JArray (map section_json secs))"
  by (induction secs) (simp_all add: section_json_def)

lemma transform_frame:
  fixes sc :: "'l scanner" and d :: "'f json"
    and kvs acc :: "(string \<times> 'f json) list" and xs :: "'f json list"
  shows "transform_content_fields sc d p = Inr (d', p') \<Longrightarrow> wf_json d \<Longrightarrow> frame d d'"
    and "transform_items sc kvs acc p1 = Inr (res, p1') \<Longrightarrow>
         distinct (map fst acc @ map fst kvs) \<Longrightarrow> list_all wf_json (map snd kvs) \<Longrightarrow>
         \<exists>new. res = acc @ new \<and> list_all2 frame_item kvs new"
    and "transform_list sc xs p2 = Inr (ys, p2') \<Longrightarrow> list_all wf_json xs \<Longrightarrow>
         list_all2 frame xs ys"
proof (induction sc d p and sc kvs acc p1 and sc xs p2 arbitrary: d' p' and res p1' and ys p2'
    rule: transform_content_fields_transform_items_transform_list.induct)
  case (1 sc kvs p)
  from 1(2) obtain new_obj where t: "transform_items sc kvs [] p = Inr (new_obj, p')"
    and d: "d' = JObject new_obj"
    by (auto split: sum.splits prod.splits)
  from 1(1) [OF t] 1(3) have "list_all2 frame_item kvs new_obj" by simp
  then have "list_all2 (\<lambda>kv kv'. fst kv' = fst kv \<and>
                       (if fst kv = ''content'' \<and> as_str (snd kv) \<noteq> None
                        then is_sections (snd kv') else frame (snd kv) (snd kv'))) kvs new_obj"
    by (simp add: frame_item_def [abs_def])
  with d show ?case by simp
next
  case (2 sc xs p)
  from 2(2) obtain ys where t: "transform_list sc xs p = Inr (ys, p')" and d: "d' = JArray ys"
    by (auto split: sum.splits prod.splits)
  from 2(1) [OF t] 2(3) d show ?case by simp
next
  case (9 sc key "value" rest new_obj p)
  let ?step = "case if key = ''content'' then as_str value else None of
            None \<Rightarrow> transform_content_fields sc value p
          | Some s \<Rightarrow> (case parse_content sc p s of Inl err \<Rightarrow> Inl err
              | Inr (secs, p') \<Rightarrow> Inr (JArray (map section_json secs), p'))"
  from 9(3) obtain v q where st: "?step = Inr (v, q)"
    and rest: "transform_items sc rest (dict_set new_obj key v) q = Inr (res, p1')"
    by (auto split: sum.splits prod.splits)
  have fi: "frame_item (key, value) (key, v)"
  proof (cases "if key = ''content'' then as_str value else None")
    case None
    with st have t: "transform_content_fields sc value p = Inr (v, q)" by simp
    from 9(5) have "wf_json value" by simp
    from 9(1) [OF None t this] None show ?thesis
      by (auto simp: frame_item_def split: if_splits)
  next
    case (Some s)
    with st obtain secs where "v = JArray (map section_json secs)"
      by (auto split: sum.splits prod.splits)
    with Some show ?thesis
      using is_sections_map [of secs] by (auto simp: frame_item_def split: if_splits)
  qed
  from 9(4) have "key \<notin> fst ` set new_obj" by auto
  then have ds: "dict_set new_obj key v = new_obj @ [(key, v)]" by (rule dict_set_fresh)
  have "\<exists>new. res = dict_set new_obj key v @ new \<and> list_all2 frame_item rest new"
  proof (rule 9(2) [OF st _ rest])
    show "(v, q) = (v, q)" ..
    show "distinct (map fst (dict_set new_obj key v) @ map fst rest)" using 9(4) ds by simp
    show "list_all wf_json (map snd rest)" using 9(5) by simp
  qed
  then obtain new where "res = new_obj @ (key, v) # new" and "list_all2 frame_item rest new"
    using ds by auto
  with fi show ?case by auto
next
  case (11 sc x xs p)
  from 11(3) obtain y q ys' where y: "transform_content_fields sc x p = Inr (y, q)"
    and r: "transform_list sc xs q = Inr (ys', p2')" and e: "ys = y # ys'"
    by (auto split: sum.splits prod.splits)
  from 11(1) [OF y] 11(2) [OF y _ r] 11(4) e show ?case by simp
qed auto

lemma frame_item_keys: "list_all2 frame_item kvs kvs' \<Longrightarrow> map fst kvs' = map fst kvs"
  by (induction kvs kvs' rule: list_all2_induct) (auto simp: frame_item_def)

lemma frame_shape:
  assumes "frame d d'"
  shows "(\<forall>kvs. d = JObject kvs \<longrightarrow> (\<exists>kvs'. d' = JObject kvs' \<and> map fst kvs' = map fst kvs)) \<and>
         (\<forall>xs. d = JArray xs \<longrightarrow> (\<exists>ys. d' = JArray ys \<and> length ys = length xs)) \<and>
         ((\<forall>kvs. d \<noteq> JObject kvs) \<and> (\<forall>xs. d \<noteq> JArray xs) \<longrightarrow> d' = d)"
proof (cases d)
  case (JObject kvs)
  with assms obtain kvs' where d': "d' = JObject kvs'" and
    "list_all2 frame_item kvs kvs'"
    by (cases d') (auto simp: frame_item_def [abs_def])
  then show ?thesis using JObject frame_item_keys [of kvs kvs'] by simp
next
  case (JArray xs)
  with assms show ?thesis by (cases d') (auto dest: list_all2_lengthD)
qed (use assms in auto)

lemma title_content_example:
  "map_sum id fst
     (transform_content_fields html_scan
        (JObject [(''title'', JString ''<h1>X</h1>''), (''content'', JString ''<h1>Y</h1>'')])
        (init_parser [])) =
   Inr (JObject [(''title'', JString ''<h1>X</h1>''),
                 (''content'',
                  JArray [JObject [(''headingType'', JString ''h1''), (''section'', JString ''Y''),
                                   (''description'', JString [])]])] :: unit json)"
  by code_simp

text \<open>
  C6. On a tree whose objects have no key twice, the result of the rewrite stands in the
  relation \<open>frame\<close> to the tree: an object is rewritten to an object with the same keys in
  the same order, a sequence to a sequence of the same length, a scalar to itself, and
  inside an object only a string under the key \<open>content\<close> is replaced (by a sequence of
  section records). In \<open>{"title": "<h1>X</h1>", "content": "<h1>Y</h1>"}\<close> the title
  keeps its string and the content becomes the one section \<open>h1\<close>, \<open>Y\<close>.
\<close>

theorem rewrite_frame:
  "(wf_json d \<and> transform_content_fields sc d p = Inr (d', p') \<longrightarrow>
      frame d d' \<and>
      (\<forall>kvs. d = JObject kvs \<longrightarrow> (\<exists>kvs'. d' = JObject kvs' \<and> map fst kvs' = map fst kvs)) \<and>
      (\<forall>xs. d = JArray xs \<longrightarrow> (\<exists>ys. d' = JArray ys \<and> length ys = length xs)) \<and>
      ((\<forall>kvs. d \<noteq> JObject kvs) \<and> (\<forall>xs. d \<noteq> JArray xs) \<longrightarrow> d' = d)) \<and>
   map_sum id fst
     (transform_content_fields html_scan
        (JObject [(''title'', JString ''<h1>X</h1>''), (''content'', JString ''<h1>Y</h1>'')])
        (init_parser [])) =
   Inr (JObject [(''title'', JString ''<h1>X</h1>''),
                 (''content'',
                  JArray [JObject [(''headingType'', JString ''h1''), (''section'', JString ''Y''),
                                   (''description'', JString [])]])] :: unit json)"
proof -
  have "wf_json d \<and> transform_content_fields sc d p = Inr (d', p') \<longrightarrow> frame d d'"
    using transform_frame(1) [of sc d p d' p'] by blast
  then show ?thesis
    using frame_shape [of d d'] title_content_example by blast
qed

theorem rewrite_frame_witness:
  "wf_json (JObject [(''title'', JString ''<h1>X</h1>''), (''content'', JString ''<h1>Y</h1>''),
                     (''n'', JArray [JInt 1, JBool True, JNull, JString ''content''])] :: unit json) \<and>
   map_sum id fst
     (transform_content_fields html_scan
        (JObject [(''title'', JString ''<h1>X</h1>''), (''content'', JString ''<h1>Y</h1>''),
                  (''n'', JArray [JInt 1, JBool True, JNull, JString ''content''])] :: unit json)
        (init_parser [])) =
   Inr (JObject [(''title'', JString ''<h1>X</h1>''),
                 (''content'',
                  JArray [JObject [(''headingType'', JString ''h1''), (''section'', JString ''Y''),
                                   (''description'', JString [])]]),
                 (''n'', JArray [JInt 1, JBool True, JNull, JString ''content''])]) \<and>
   frame (JObject [(''title'', JString ''<h1>X</h1>''), (''content'', JString ''<h1>Y</h1>''),
                   (''n'', JArray [JInt 1, JBool True, JNull, JString ''content''])] :: unit json)
         (JObject [(''title'', JString ''<h1>X</h1>''),
                 (''content'',
                  JArray [JObject [(''headingType'', JString ''h1''), (''section'', JString ''Y''),
                                   (''description'', JString [])]]),
                 (''n'', JArray [JInt 1, JBool True, JNull, JString ''content''])])"
  (is "wf_json ?d0 \<and> map_sum id fst (transform_content_fields html_scan ?d0 ?p0) = Inr ?d1 \<and> _")
proof -
  have w: "wf_json ?d0" by simp
  have e: "map_sum id fst (transform_content_fields html_scan ?d0 ?p0) = Inr ?d1"
    by code_simp
  from transform_total(1) [of html_scan ?d0 ?p0] obtain d' p' where
    t: "transform_content_fields html_scan ?d0 ?p0 = Inr (d', p')" by fastforce
  from t e have "d' = ?d1" by simp
  with t w rewrite_frame [of ?d0 html_scan ?p0 ?d1 p'] have "frame ?d0 ?d1" by blast
  with w e show ?thesis by blast
qed

end
